theory Spec2Isabelle
  imports Complex_Main "HOL-Library.Word"
begin

unbundle bit_operations_syntax

section \<open>Go values: errors, machine integers, bytes\<close>

text \<open>
  A Go \<open>error\<close> value is modelled by the message it carries; the formatted messages of
  \<open>fmt.Errorf\<close> keep their numeric arguments as fields. A run-time panic (integer division
  by zero, index out of range) is a value of the same type.
\<close>

datatype error =
    Error string
  | FlowCountExceedsCapacity int int
  | ExactSizeBelowBase int int
  | EstimatedSizeAboveMax int int
  | Panic string

text \<open>
  Go's \<open>int\<close> is 64 bits wide on the platforms the program builds for (linux/amd64). A value
  is modelled as an \<open>int\<close>; every arithmetic result that can leave the range is passed through
  \<open>wrap64\<close>, the two's complement wrap-around.
\<close>

definition wrap64 :: "int \<Rightarrow> int" where
  "wrap64 x = (x + 2 ^ 63) mod 2 ^ 64 - 2 ^ 63"

definition maxInt :: int where
  "maxInt = 2 ^ 63 - 1"

text \<open>Go's \<open>/\<close> and \<open>%\<close> truncate towards zero; the divisor is checked by the caller.\<close>

definition go_div :: "int \<Rightarrow> int \<Rightarrow> int" where
  "go_div a b = wrap64 (sgn a * sgn b * (\<bar>a\<bar> div \<bar>b\<bar>))"

definition go_mod :: "int \<Rightarrow> int \<Rightarrow> int" where
  "go_mod a b = sgn a * (\<bar>a\<bar> mod \<bar>b\<bar>)"

type_synonym byte = "8 word"

text \<open>The conversion \<open>byte(x)\<close> keeps the low eight bits.\<close>

definition byte_of :: "int \<Rightarrow> byte" where
  "byte_of x = word_of_int x"

section \<open>pcapgen: flow index and host addresses\<close>

text \<open>
  \<open>flowIndexToHosts(idx, internalCount, externalCount)\<close>. The division panics when
  \<open>externalCount\<close> is zero.
\<close>

definition flowIndexToHosts :: "int \<Rightarrow> int \<Rightarrow> int \<Rightarrow> error + (int \<times> int \<times> bool)" where
  "flowIndexToHosts idx internalCount externalCount =
     (let totalPair = wrap64 (internalCount * externalCount) in
      if externalCount = 0 then Inl (Panic ''integer divide by zero'')
      else if idx < totalPair
        then Inr (go_div idx externalCount, go_mod idx externalCount, True)
        else (let idx2 = wrap64 (idx - totalPair)
              in Inr (go_div idx2 externalCount, go_mod idx2 externalCount, False)))"

text \<open>\<open>uniqueInternalIPv4\<close> and \<open>uniqueExternalIPv4\<close>: a \<open>net.IP\<close> of four bytes.\<close>

definition uniqueInternalIPv4 :: "int \<Rightarrow> byte list" where
  "uniqueInternalIPv4 idx = [192, 168, byte_of (go_div idx 256), byte_of (go_mod idx 256)]"

definition uniqueExternalIPv4 :: "int \<Rightarrow> byte list" where
  "uniqueExternalIPv4 idx =
     [10, byte_of (drop_bit 16 idx AND 255), byte_of (drop_bit 8 idx AND 255),
      byte_of (idx AND 255)]"

text \<open>The inverse of the flow-index mapping, used to state that it is onto.\<close>

definition hostsToFlowIndex :: "int \<Rightarrow> int \<Rightarrow> error + (int \<times> int \<times> bool) \<Rightarrow> int" where
  "hostsToFlowIndex internalCount externalCount r =
     (case r of
        Inl _ \<Rightarrow> 0
      | Inr (i, e, internalAsSource) \<Rightarrow>
          (if internalAsSource then i * externalCount + e
           else internalCount * externalCount + i * externalCount + e))"

section \<open>pcapgen: configuration, hosts and the random source\<close>

text \<open>
  \<open>pcapgen.Config\<close>. Durations are \<open>time.Duration\<close> values, that is nanoseconds;
  \<open>StartTime\<close> is the wall-clock instant in nanoseconds since the Unix epoch.
\<close>

record Config =
  InternalHosts :: int
  ExternalHosts :: int
  MinDuration :: int
  MaxDuration :: int
  FileCount :: int
  OutDir :: string
  OutFile :: string
  StartTime :: int
  MaxSizeBytes :: int
  ExactBytes :: int
  Seed :: int
  FlowCount :: int
  PacketsPerFlow :: int

record host =
  mac :: "byte list"
  ip :: "byte list"

text \<open>
  The seeded generator \<open>*rand.Rand\<close> is a stream of raw values; each call takes values from
  the front and leaves the rest. No property of the stream is assumed, so a theorem about
  every stream covers every seed. \<open>Intn\<close> and \<open>Int63n\<close> panic on a non-positive bound.
\<close>

type_synonym rand = "nat \<Rightarrow> int"

definition rand_drop :: "nat \<Rightarrow> rand \<Rightarrow> rand" where
  "rand_drop n r = (\<lambda>k. r (k + n))"

definition Intn :: "rand \<Rightarrow> int \<Rightarrow> error + (int \<times> rand)" where
  "Intn r n = (if n \<le> 0 then Inl (Panic ''invalid argument to Intn'')
               else Inr (r 0 mod n, rand_drop 1 r))"

definition Int63n :: "rand \<Rightarrow> int \<Rightarrow> error + (int \<times> rand)" where
  "Int63n r n = (if n \<le> 0 then Inl (Panic ''invalid argument to Int63n'')
                 else Inr (r 0 mod n, rand_drop 1 r))"

definition rand_Read :: "rand \<Rightarrow> int \<Rightarrow> byte list \<times> rand" where
  "rand_Read r n = (map (\<lambda>k. byte_of (r k)) [0 ..< nat n], rand_drop (nat n) r)"

text \<open>\<open>byte(randSrc.Intn(256))\<close>: the bound is a positive constant, so there is no panic.\<close>

definition rand_byte :: "rand \<Rightarrow> byte \<times> rand" where
  "rand_byte r = (byte_of (r 0 mod 256), rand_drop 1 r)"

definition randomMAC :: "rand \<Rightarrow> byte list \<times> rand" where
  "randomMAC r0 =
     (let (b0, r1) = rand_byte r0; (b1, r2) = rand_byte r1; (b2, r3) = rand_byte r2;
          (b3, r4) = rand_byte r3; (b4, r5) = rand_byte r4; (b5, r6) = rand_byte r5
      in ([b0, b1, b2, b3, b4, b5], r6))"

text \<open>\<open>randomIPv4(randSrc, prefix...)\<close>; the first byte without a prefix is \<open>Intn(255) + 1\<close>.\<close>

definition randomIPv4 :: "rand \<Rightarrow> int list \<Rightarrow> byte list \<times> rand" where
  "randomIPv4 r0 prefix =
     (let (ip0, r1) = (if length prefix \<ge> 1 then (byte_of (prefix ! 0), r0)
                       else (byte_of (r0 0 mod 255 + 1), rand_drop 1 r0));
          (ip1, r2) = (if length prefix \<ge> 2 then (byte_of (prefix ! 1), r1) else rand_byte r1);
          (ip2, r3) = rand_byte r2;
          (ip3, r4) = rand_byte r3
      in ([ip0, ip1, ip2, ip3], r4))"

definition randomDuration :: "rand \<Rightarrow> int \<Rightarrow> int \<Rightarrow> error + (int \<times> rand)" where
  "randomDuration r mn mx =
     (if mn = mx then Inr (mn, r)
      else (let delta = wrap64 (mx - mn) in
            case Int63n r delta of
              Inl e \<Rightarrow> Inl e
            | Inr (v, r') \<Rightarrow> Inr (wrap64 (mn + v), r')))"

text \<open>Indexing a slice panics outside its bounds.\<close>

definition index :: "'a list \<Rightarrow> int \<Rightarrow> error + 'a" where
  "index xs i = (if 0 \<le> i \<and> i < int (length xs) then Inr (xs ! nat i)
                 else Inl (Panic ''index out of range''))"

section \<open>pcapgen: frames and capture records\<close>

text \<open>
  The frame \<open>createPacket\<close> and \<open>createPacketForHosts\<close> serialise: the Ethernet header
  (14 bytes), the IPv4 header without options (IHL 5, 20 bytes), the TCP header with
  \<open>DataOffset\<close> 7 (28 bytes: MSS, two no-ops and SACK-permitted as options) and the payload.
  Every other field is the same constant in each frame, so a frame is given by its addresses
  and its payload; \<open>frameLen\<close> is the \<open>len(packetData)\<close> of the serialised bytes.
  Serialisation by the packet library is taken to succeed.
\<close>

record frame =
  SrcMAC :: "byte list"
  DstMAC :: "byte list"
  SrcIP :: "byte list"
  DstIP :: "byte list"
  Payload :: "byte list"

definition frameLen :: "frame \<Rightarrow> int" where
  "frameLen f = 14 + 20 + 28 + int (length (Payload f))"

definition buildFrame :: "rand \<Rightarrow> host \<Rightarrow> host \<Rightarrow> int \<Rightarrow> frame \<times> rand" where
  "buildFrame r src dst payloadLen =
     (let (bytes, r') = (if payloadLen > 0 then rand_Read r payloadLen else ([], r))
      in (\<lparr> SrcMAC = mac src, DstMAC = mac dst, SrcIP = ip src, DstIP = ip dst,
             Payload = bytes \<rparr>, r'))"

definition createPacketForHosts ::
  "rand \<Rightarrow> host \<Rightarrow> host \<Rightarrow> bool \<Rightarrow> int \<Rightarrow> error + (frame \<times> rand)" where
  "createPacketForHosts r internalHost externalHost internalAsSource payloadLen =
     (let (src, dst) = (if internalAsSource then (internalHost, externalHost)
                        else (externalHost, internalHost))
      in Inr (buildFrame r src dst payloadLen))"

definition createPacket :: "rand \<Rightarrow> host list \<Rightarrow> host list \<Rightarrow> int \<Rightarrow> error + (frame \<times> rand)" where
  "createPacket r0 internal external payloadLen =
     (case Intn r0 2 of Inl e \<Rightarrow> Inl e | Inr (d, r1) \<Rightarrow>
        (if d = 1 then
           (case Intn r1 (int (length internal)) of Inl e \<Rightarrow> Inl e | Inr (i, r2) \<Rightarrow>
           (case Intn r2 (int (length external)) of Inl e \<Rightarrow> Inl e | Inr (j, r3) \<Rightarrow>
              Inr (buildFrame r3 (internal ! nat i) (external ! nat j) payloadLen)))
         else
           (case Intn r1 (int (length external)) of Inl e \<Rightarrow> Inl e | Inr (j, r2) \<Rightarrow>
           (case Intn r2 (int (length internal)) of Inl e \<Rightarrow> Inl e | Inr (i, r3) \<Rightarrow>
              Inr (buildFrame r3 (external ! nat j) (internal ! nat i) payloadLen)))))"

text \<open>
  A record handed to the capture writer: the \<open>Timestamp\<close> of its \<open>CaptureInfo\<close> in
  nanoseconds since the Unix epoch, and the frame. The writer puts a 24-byte file header
  first and a 16-byte record header before each frame, which is where the constants 24 and
  78 = 16 + 62 of the generator come from; \<open>fileSize\<close> is the byte length of the file.
  Failures of the file system are not modelled.
\<close>

record pcap_record =
  Timestamp :: int
  Frame :: frame

definition fileSize :: "pcap_record list \<Rightarrow> int" where
  "fileSize recs = 24 + (\<Sum>rc \<leftarrow> recs. 16 + frameLen (Frame rc))"

section \<open>pcapgen: the diurnal traffic model\<close>

text \<open>
  \<open>float64\<close> values are modelled as real numbers: rounding, infinities and NaN are outside
  the model. \<open>math.Mod(x, y)\<close> is \<open>x - y * trunc (x / y)\<close>.
\<close>

definition trunc :: "real \<Rightarrow> int" where
  "trunc v = (if v \<ge> 0 then \<lfloor>v\<rfloor> else \<lceil>v\<rceil>)"

definition math_Mod :: "real \<Rightarrow> real \<Rightarrow> real" where
  "math_Mod v y = v - y * of_int (trunc (v / y))"

record cubicSpline =
  spline_x :: "real list"
  spline_a :: "real list"
  spline_b :: "real list"
  spline_c :: "real list"
  spline_d :: "real list"

text \<open>
  \<open>newCubicSpline(x, y)\<close>, for \<open>n = len(x) \<ge> 1\<close> knots and \<open>len(y) \<ge> n\<close> as in its only
  call. Slices made by \<open>make\<close> start as zeros; each loop is a fold over its index range that
  updates the slices in place.
\<close>

definition spline_h :: "real list \<Rightarrow> real list" where
  "spline_h x = map (\<lambda>i. x ! (i + 1) - x ! i) [0 ..< length x - 1]"

definition spline_alpha :: "real list \<Rightarrow> real list \<Rightarrow> real list" where
  "spline_alpha h a =
     fold (\<lambda>i alpha. alpha[i := (3 / h ! i) * (a ! (i + 1) - a ! i)
                                   - (3 / h ! (i - 1)) * (a ! i - a ! (i - 1))])
       [1 ..< length h] (replicate (length h) 0)"

definition spline_forward ::
  "real list \<Rightarrow> real list \<Rightarrow> real list \<Rightarrow> real list \<times> real list \<times> real list" where
  "spline_forward x h alpha =
     fold (\<lambda>i (l, mu, z).
             (let li = 2 * (x ! (i + 1) - x ! (i - 1)) - h ! (i - 1) * mu ! (i - 1)
              in (l[i := li], mu[i := h ! i / li],
                  z[i := (alpha ! i - h ! (i - 1) * z ! (i - 1)) / li])))
       [1 ..< length x - 1]
       ((replicate (length x) 0)[0 := 1], replicate (length x) 0, replicate (length x) 0)"

definition backward_step ::
  "real list \<Rightarrow> real list \<Rightarrow> real list \<Rightarrow> real list \<Rightarrow> nat
     \<Rightarrow> real list \<times> real list \<times> real list \<Rightarrow> real list \<times> real list \<times> real list" where
  "backward_step a h mu z j bcd =
     (case bcd of (b, c, d) \<Rightarrow>
        (let c1 = c[j := z ! j - mu ! j * c ! (j + 1)]
         in (b[j := (a ! (j + 1) - a ! j) / h ! j - h ! j * (c1 ! (j + 1) + 2 * c1 ! j) / 3],
             c1,
             d[j := (c1 ! (j + 1) - c1 ! j) / (3 * h ! j)])))"

definition spline_backward ::
  "real list \<Rightarrow> real list \<Rightarrow> real list \<Rightarrow> real list \<Rightarrow> nat
     \<Rightarrow> real list \<times> real list \<times> real list" where
  "spline_backward a h mu z n =
     fold (backward_step a h mu z) (rev [0 ..< n - 1])
       (replicate n 0, replicate n 0, replicate n 0)"

definition newCubicSpline :: "real list \<Rightarrow> real list \<Rightarrow> cubicSpline" where
  "newCubicSpline x y =
     (let n = length x;
          a = take n y;
          h = spline_h x;
          alpha = spline_alpha h a;
          (l0, mu, z0) = spline_forward x h alpha;
          z = z0[n - 1 := 0];
          (b, c, d) = spline_backward a h mu z n
      in \<lparr> spline_x = x, spline_a = a, spline_b = b, spline_c = c, spline_d = d \<rparr>)"

text \<open>\<open>(s *cubicSpline) eval(x)\<close>: the first interval that contains \<open>x\<close>, or interval 0.\<close>

definition spline_eval :: "cubicSpline \<Rightarrow> real \<Rightarrow> real" where
  "spline_eval s v =
     (let n = length (spline_x s) in
      if v \<le> spline_x s ! 0 then spline_a s ! 0
      else if v \<ge> spline_x s ! (n - 1) then spline_a s ! (n - 1)
      else
        (let idx = (case find (\<lambda>i. v \<ge> spline_x s ! i \<and> v \<le> spline_x s ! (i + 1)) [0 ..< n - 1] of
                      Some i \<Rightarrow> i | None \<Rightarrow> 0);
             dx = v - spline_x s ! idx
         in spline_a s ! idx + spline_b s ! idx * dx + spline_c s ! idx * dx * dx
            + spline_d s ! idx * dx * dx * dx))"

definition knots :: "real list" where
  "knots = map real [0 ..< 25]"

definition weekend_curve :: "real list" where
  "weekend_curve =
     [0, 4/10, 0, 0, 0, 0, 0, 0, 1/10, 2/10, 5/10, 45/100, 45/100, 5/10, 45/100, 45/100,
      45/100, 45/100, 5/10, 2/10, 0, 0, 0, 0, 0]"

definition weekday_curve :: "real list" where
  "weekday_curve =
     [0, 4/10, 0, 0, 0, 0, 0, 1/10, 2/10, 4/10, 95/100, 9/10, 9/10, 95/100, 9/10, 9/10,
      9/10, 9/10, 95/100, 4/10, 1/10, 0, 0, 0, 0]"

definition durationScalar :: "real \<Rightarrow> bool \<Rightarrow> real" where
  "durationScalar hour weekend =
     (if hour < 0 \<or> hour \<ge> 24 then 0
      else
        (let hour1 = math_Mod (hour + 1) 24;
             y = (if weekend then weekend_curve else weekday_curve);
             spline = newCubicSpline knots y;
             result = 1 - spline_eval spline hour1
         in if result < 0 then 0 else if result > 1 then 1 else result))"

section \<open>replay: the replay engine\<close>

text \<open>
  \<open>replay.Config\<close>. The rates are \<open>float64\<close> in the source and only compared with zero;
  \<open>StatsInterval\<close> is a \<open>time.Duration\<close> in nanoseconds.
\<close>

datatype Mode = ModeTimestamp | ModeMbps | ModePps | ModeEmpty | ModeOther string

record replay_Config =
  InPath :: string
  Iface :: string
  Mode :: Mode
  Mbps :: real
  Pps :: real
  Loop :: int
  Limit :: int
  StatsInterval :: int

text \<open>A record read from the capture: its timestamp (nanoseconds) and its frame bytes.\<close>

record packet =
  pktTimestamp :: int
  pktData :: "byte list"

text \<open>
  What the engine meets outside the program: whether the interface resolves, whether the raw
  socket opens and binds, what \<open>os.Open\<close> and the pcap reader deliver for the input path (an
  error, or the packets followed by end of file or by a read error), and whether the \<open>k\<close>-th
  \<open>Sendto\<close> of the invocation succeeds.
\<close>

record world =
  ifaceError :: "error option"
  socketError :: "error option"
  bindError :: "error option"
  openError :: "error option"
  capture :: "packet list"
  readError :: "error option"
  sendError :: "nat \<Rightarrow> error option"

text \<open>
  The state one invocation of \<open>Replay\<close> owns across loop iterations: the cell \<open>remaining\<close>
  points to (\<open>None\<close> for the nil pointer) and the frames handed to \<open>Sendto\<close> so far.
\<close>

record replay_state =
  remaining :: "int option"
  sent :: "byte list list"

text \<open>
  The packet loop of \<open>replayOnce\<close>, over the packets still to be read, with the per-loop
  counter \<open>totalPackets\<close>. \<open>waitForSchedule\<close> only delays and the statistics line only
  prints, so neither changes the state modelled here.
\<close>

fun replayOnce_packets :: "world \<Rightarrow> packet list \<Rightarrow> int \<Rightarrow> replay_state \<Rightarrow> error + replay_state" where
  "replayOnce_packets w [] totalPackets st =
     (case readError w of Some e \<Rightarrow> Inl e | None \<Rightarrow> Inr st)"
| "replayOnce_packets w (p # ps) totalPackets st =
     (if remaining st \<noteq> None \<and> the (remaining st) = 0 then Inr st
      else if remaining st \<noteq> None \<and> the (remaining st) > 0 \<and> totalPackets \<ge> the (remaining st)
        then Inr st
      else (case sendError w (length (sent st)) of
              Some e \<Rightarrow> Inl e
            | None \<Rightarrow>
                replayOnce_packets w ps (wrap64 (totalPackets + 1))
                  (st\<lparr> sent := sent st @ [pktData p],
                       remaining :=
                         (if remaining st \<noteq> None \<and> the (remaining st) > 0
                          then Some (wrap64 (the (remaining st) - 1))
                          else remaining st) \<rparr>)))"

definition replayOnce :: "world \<Rightarrow> replay_Config \<Rightarrow> replay_state \<Rightarrow> error + replay_state" where
  "replayOnce w cfg st =
     (case openError w of
        Some e \<Rightarrow> Inl e
      | None \<Rightarrow> replayOnce_packets w (capture w) 0 st)"

text \<open>
  The outer loop of \<open>Replay\<close>. With \<open>Loop = 0\<close> it never leaves the loop unless an iteration
  fails, so the result is an option: \<open>None\<close> stands for a run that does not return.
\<close>

partial_function (option) Replay_loops ::
  "world \<Rightarrow> replay_Config \<Rightarrow> int \<Rightarrow> replay_state \<Rightarrow> (error + replay_state) option" where
  "Replay_loops w cfg loop st =
     (if Loop cfg > 0 \<and> loop \<ge> Loop cfg then Some (Inr st)
      else (case replayOnce w cfg st of
              Inl e \<Rightarrow> Some (Inl e)
            | Inr st' \<Rightarrow> Replay_loops w cfg (wrap64 (loop + 1)) st'))"

declare Replay_loops.simps [code]

definition Replay :: "world \<Rightarrow> replay_Config \<Rightarrow> (error + replay_state) option" where
  "Replay w cfg0 =
     (if InPath cfg0 = [] \<or> Iface cfg0 = [] then Some (Inl (Error ''input pcap and iface required''))
      else
        (let cfg1 = (if Mode cfg0 = ModeEmpty then cfg0\<lparr> Mode := ModeTimestamp \<rparr> else cfg0);
             cfg = (if StatsInterval cfg1 \<le> 0 then cfg1\<lparr> StatsInterval := 1000000000 \<rparr> else cfg1)
         in if Mode cfg = ModeMbps \<and> Mbps cfg \<le> 0
              then Some (Inl (Error ''mbps must be > 0 when mode=mbps''))
            else if Mode cfg = ModePps \<and> Pps cfg \<le> 0
              then Some (Inl (Error ''pps must be > 0 when mode=pps''))
            else (case ifaceError w of Some e \<Rightarrow> Some (Inl e) | None \<Rightarrow>
                 (case socketError w of Some e \<Rightarrow> Some (Inl e) | None \<Rightarrow>
                 (case bindError w of Some e \<Rightarrow> Some (Inl e) | None \<Rightarrow>
                    Replay_loops w cfg 0
                      \<lparr> remaining = (if Limit cfg > 0 then Some (Limit cfg) else None),
                        sent = [] \<rparr>)))))"

text \<open>A capture of ten one-byte frames and a world in which every system call succeeds.\<close>

definition ten_packets :: "packet list" where
  "ten_packets = map (\<lambda>k. \<lparr> pktTimestamp = k * 1000, pktData = [byte_of k] \<rparr>) [0, 1, 2, 3, 4, 5, 6, 7, 8, 9]"

definition quiet_world :: "packet list \<Rightarrow> world" where
  "quiet_world ps =
     \<lparr> ifaceError = None, socketError = None, bindError = None, openError = None,
       capture = ps, readError = None, sendError = (\<lambda>k. None) \<rparr>"

definition loop3_limit10 :: replay_Config where
  "loop3_limit10 =
     \<lparr> InPath = ''in.pcap'', Iface = ''eth0'', Mode = ModeTimestamp, Mbps = 0, Pps = 0,
       Loop = 3, Limit = 10, StatsInterval = 1000000000 \<rparr>"


section \<open>pcapgen: fixed-flow generation\<close>

text \<open>
  The inner loop of \<open>createPcapFileFlows\<close> over \<open>p\<close>, for one flow. The loop state is the
  running \<open>packetIdx\<close>, the random source and the records written so far.
  \<open>time.Duration(offsetUsec) * time.Microsecond\<close> is a 64-bit product; \<open>start.Add\<close> adds it
  to the start instant.
\<close>

function flowPackets ::
  "int \<Rightarrow> int \<Rightarrow> Config \<Rightarrow> int \<Rightarrow> host list \<Rightarrow> host list \<Rightarrow> int \<Rightarrow> int \<times> int \<times> bool \<Rightarrow> int
     \<Rightarrow> int \<times> rand \<times> pcap_record list \<Rightarrow> error + (int \<times> rand \<times> pcap_record list)" where
  "flowPackets start usecStep cfg payloadExtra internal external flowIdx hosts p st =
     (if p < PacketsPerFlow cfg then
        (case st of (packetIdx, r, recs) \<Rightarrow>
          (let offsetUsec = wrap64 (packetIdx * usecStep);
               packetTime = start + wrap64 (offsetUsec * 1000);
               lastPacket = (flowIdx = wrap64 (FlowCount cfg - 1) \<and> p = wrap64 (PacketsPerFlow cfg - 1));
               payloadLen = (if lastPacket \<and> payloadExtra > 0 then payloadExtra else 0)
           in case index internal (fst hosts) of Inl e \<Rightarrow> Inl e | Inr internalHost \<Rightarrow>
             (case index external (fst (snd hosts)) of Inl e \<Rightarrow> Inl e | Inr externalHost \<Rightarrow>
             (case createPacketForHosts r internalHost externalHost (snd (snd hosts)) payloadLen of
                Inl e \<Rightarrow> Inl e
              | Inr (packetData, r') \<Rightarrow>
                  flowPackets start usecStep cfg payloadExtra internal external flowIdx hosts (p + 1)
                    (wrap64 (packetIdx + 1), r',
                     recs @ [\<lparr> Timestamp = packetTime, Frame = packetData \<rparr>])))))
      else Inr st)"
  by pat_completeness auto
termination
  by (relation "measure (\<lambda>(start, usecStep, cfg, payloadExtra, internal, external, flowIdx, hosts, p, st).
                           nat (PacketsPerFlow cfg - p))") auto

declare flowPackets.simps [simp del]

text \<open>The outer loop over \<open>flowIdx\<close>.\<close>

function flowLoop ::
  "int \<Rightarrow> int \<Rightarrow> Config \<Rightarrow> int \<Rightarrow> host list \<Rightarrow> host list \<Rightarrow> int
     \<Rightarrow> int \<times> rand \<times> pcap_record list \<Rightarrow> error + (int \<times> rand \<times> pcap_record list)" where
  "flowLoop start usecStep cfg payloadExtra internal external flowIdx st =
     (if flowIdx < FlowCount cfg then
        (case flowIndexToHosts flowIdx (int (length internal)) (int (length external)) of
           Inl e \<Rightarrow> Inl e
         | Inr hosts \<Rightarrow>
            (case flowPackets start usecStep cfg payloadExtra internal external flowIdx hosts 0 st of
               Inl e \<Rightarrow> Inl e
             | Inr st' \<Rightarrow>
                 flowLoop start usecStep cfg payloadExtra internal external (flowIdx + 1) st'))
      else Inr st)"
  by pat_completeness auto
termination
  by (relation "measure (\<lambda>(start, usecStep, cfg, payloadExtra, internal, external, flowIdx, st).
                           nat (FlowCount cfg - flowIdx))") auto

declare flowLoop.simps [simp del]

text \<open>
  The timestamp step of \<open>createPcapFileFlows\<close>: the duration (10 seconds when it is not
  positive) in microseconds, at least 1, divided by the packet count, at least 1. The
  caller has checked that \<open>totalPackets\<close> is not zero.
\<close>

definition flowUsecStep :: "int \<Rightarrow> int \<Rightarrow> int" where
  "flowUsecStep duration totalPackets =
     (let duration1 = (if duration \<le> 0 then 10 * 1000000000 else duration);
          totalUsec0 = go_div duration1 1000;
          totalUsec = (if totalUsec0 \<le> 0 then 1 else totalUsec0);
          usecStep0 = go_div totalUsec totalPackets
      in if usecStep0 < 1 then 1 else usecStep0)"

text \<open>
  \<open>createPcapFileFlows(path, start, duration, cfg, exactBytes, randSrc, internal, external)\<close>.
  The result is the sequence of records written to the file at \<open>path\<close> and the random
  source after them, or the error returned. The division by \<open>totalPackets\<close> panics when it
  is zero.
\<close>

definition createPcapFileFlows ::
  "int \<Rightarrow> int \<Rightarrow> Config \<Rightarrow> int \<Rightarrow> rand \<Rightarrow> host list \<Rightarrow> host list
     \<Rightarrow> error + (pcap_record list \<times> rand)" where
  "createPcapFileFlows start duration cfg exactBytes randSrc internal external =
     (let totalCapacity = wrap64 (2 * int (length internal) * int (length external)) in
      if FlowCount cfg > totalCapacity
        then Inl (FlowCountExceedsCapacity (FlowCount cfg) totalCapacity)
      else
       (let totalPackets = wrap64 (FlowCount cfg * PacketsPerFlow cfg);
            baseSize = wrap64 (24 + wrap64 (totalPackets * 78))
        in if exactBytes > 0 \<and> exactBytes < baseSize
             then Inl (ExactSizeBelowBase exactBytes baseSize)
           else if \<not> exactBytes > 0 \<and> MaxSizeBytes cfg > 0 \<and> baseSize > MaxSizeBytes cfg
             then Inl (EstimatedSizeAboveMax baseSize (MaxSizeBytes cfg))
           else
            (let payloadExtra = (if exactBytes > 0 then wrap64 (exactBytes - baseSize) else 0)
             in if totalPackets = 0 then Inl (Panic ''integer divide by zero'')
                else
                 (case flowLoop start (flowUsecStep duration totalPackets) cfg payloadExtra
                         internal external 0 (0, randSrc, []) of
                    Inl e \<Rightarrow> Inl e
                  | Inr (packetIdx, r', recs) \<Rightarrow> Inr (recs, r')))))"

section \<open>pcapgen: random-pair generation\<close>

text \<open>
  The packet loop of \<open>createPcapFile\<close>. The source has it twice with the same body: in
  the exact-size branch it runs for \<open>i < totalPackets\<close>, divides by \<open>totalPackets - i\<close> and
  pads packet \<open>totalPackets - 1\<close> with \<open>remainder\<close> bytes; in the max-size branch it runs for
  \<open>i < numPackets - 1\<close>, divides by \<open>numPackets - i\<close> and never pads. Here \<open>limit\<close> is the loop
  bound, \<open>count\<close> the packet count in the divisor and \<open>remainder\<close> the padding (0 for the
  max-size branch). The loop state is \<open>startSec\<close>, \<open>offsetUsec\<close>, the random source and the
  records written. \<open>time.Unix(startSec, int64(offsetUsec) * 1000)\<close> is the instant
  \<open>startSec\<close> seconds plus the 64-bit product in nanoseconds.

  \<open>interPacketGap\<close> is the loop body's \<open>interPacket\<close>: the seconds remaining (at least 1)
  over the packets remaining, in microseconds, at least 1; the \<open>float64\<close> expression
  \<open>int((remaining / float64(count - i)) * 1_000_000)\<close> is computed exactly.
  \<open>advanceClock\<close> is the end of the body: the offset grows by the drawn gap, and an offset
  of a second or more carries one second into \<open>startSec\<close>.
\<close>

definition interPacketGap :: "int \<Rightarrow> int \<Rightarrow> int \<Rightarrow> int \<Rightarrow> int" where
  "interPacketGap endSec startSec count i =
     (let remaining0 = wrap64 (endSec - startSec);
          remaining = (if remaining0 \<le> 0 then 1 else remaining0);
          interPacket0 = (remaining * 1000000) div (count - i)
      in if interPacket0 < 1 then 1 else interPacket0)"

definition advanceClock :: "int \<Rightarrow> int \<Rightarrow> int \<Rightarrow> int \<times> int" where
  "advanceClock startSec offsetUsec gap =
     (let offsetUsec1 = wrap64 (offsetUsec + gap)
      in if offsetUsec1 \<ge> 1000000
         then (wrap64 (startSec + 1), wrap64 (offsetUsec1 - 1000000))
         else (startSec, offsetUsec1))"

function randomPackets ::
  "int \<Rightarrow> int \<Rightarrow> int \<Rightarrow> int \<Rightarrow> host list \<Rightarrow> host list \<Rightarrow> int
     \<Rightarrow> int \<times> int \<times> rand \<times> pcap_record list
     \<Rightarrow> error + (int \<times> int \<times> rand \<times> pcap_record list)" where
  "randomPackets limit count remainder endSec internal external i st =
     (if i < limit then
        (case st of (startSec, offsetUsec, r, recs) \<Rightarrow>
          (let packetTime = startSec * 1000000000 + wrap64 (offsetUsec * 1000);
               payloadLen = (if i = wrap64 (count - 1) \<and> remainder > 0 then remainder else 0)
           in case createPacket r internal external payloadLen of
                Inl e \<Rightarrow> Inl e
              | Inr (packetData, r1) \<Rightarrow>
                 (let recs' = recs @ [\<lparr> Timestamp = packetTime, Frame = packetData \<rparr>];
                      interPacket = interPacketGap endSec startSec count i
                  in case Intn r1 (wrap64 (interPacket + 1)) of
                       Inl e \<Rightarrow> Inl e
                     | Inr (gap, r2) \<Rightarrow>
                        (case advanceClock startSec offsetUsec gap of
                           (startSec', offsetUsec') \<Rightarrow>
                             randomPackets limit count remainder endSec internal external (i + 1)
                               (startSec', offsetUsec', r2, recs')))))
      else Inr st)"
  by pat_completeness auto
termination
  by (relation "measure (\<lambda>(limit, count, remainder, endSec, internal, external, i, st).
                           nat (limit - i))") auto

declare randomPackets.simps [simp del]

text \<open>
  \<open>createPcapFile(path, start, duration, maxSize, exactBytes, randSrc, internal, external)\<close>.
  \<open>start.Unix()\<close> is the whole seconds of the start instant and \<open>int64(duration.Seconds())\<close>
  the whole seconds of the duration.
\<close>

definition createPcapFile ::
  "int \<Rightarrow> int \<Rightarrow> int \<Rightarrow> int \<Rightarrow> rand \<Rightarrow> host list \<Rightarrow> host list
     \<Rightarrow> error + (pcap_record list \<times> rand)" where
  "createPcapFile start duration maxSize exactBytes randSrc internal external =
     (let startSec = start div 1000000000;
          endSec = wrap64 (wrap64 (startSec + go_div duration 1000000000) - 1)
      in if exactBytes > 0 then
           (if exactBytes < 24 + 78
              then Inl (Error ''exact-size too small for packet generation'')
            else
             (let totalPackets = go_div (wrap64 (exactBytes - 24)) 78;
                  remainder = go_mod (wrap64 (exactBytes - 24)) 78
              in if totalPackets \<le> 0
                   then Inl (Error ''exact-size too small for packet generation'')
                 else
                  (case randomPackets totalPackets totalPackets remainder endSec internal external 0
                          (startSec, 0, randSrc, []) of
                     Inl e \<Rightarrow> Inl e
                   | Inr (startSec', offsetUsec', r', recs) \<Rightarrow> Inr (recs, r'))))
         else
           (let numPackets = go_div (wrap64 (maxSize - 24)) 78
            in if numPackets \<le> 0
                 then Inl (Error ''max-size too small for packet generation'')
               else
                (case randomPackets (wrap64 (numPackets - 1)) numPackets 0 endSec internal external 0
                        (startSec, 0, randSrc, []) of
                   Inl e \<Rightarrow> Inl e
                 | Inr (startSec', offsetUsec', r', recs) \<Rightarrow> Inr (recs, r'))))"

section \<open>pcapgen: Generate\<close>

text \<open>The configuration checks at the head of \<open>Generate\<close>, in source order.\<close>

definition Generate_checks :: "Config \<Rightarrow> error option" where
  "Generate_checks cfg =
     (if InternalHosts cfg \<le> 0 \<or> ExternalHosts cfg \<le> 0
        then Some (Error ''internal-hosts and external-hosts must be > 0'')
      else if FileCount cfg \<le> 0
        then Some (Error ''file-count must be > 0'')
      else if OutFile cfg \<noteq> [] \<and> FileCount cfg \<noteq> 1
        then Some (Error ''out-file requires file-count=1'')
      else if ExactBytes cfg > 0 \<and> FileCount cfg \<noteq> 1
        then Some (Error ''exact-size requires file-count=1'')
      else if MinDuration cfg \<le> 0 \<or> MaxDuration cfg \<le> 0 \<or> MaxDuration cfg < MinDuration cfg
        then Some (Error ''invalid duration range'')
      else if ExactBytes cfg \<le> 0
        then Some (Error ''exact-size must be > 0'')
      else if FlowCount cfg < 0
        then Some (Error ''flow-count must be >= 0'')
      else if FlowCount cfg > 0 \<and> PacketsPerFlow cfg \<le> 0
        then Some (Error ''packets-per-flow must be > 0 when flow-count is set'')
      else None)"

text \<open>The two ways \<open>Generate\<close> fills a host pool, index by index.\<close>

definition uniqueHosts :: "(int \<Rightarrow> byte list) \<Rightarrow> int \<Rightarrow> rand \<Rightarrow> host list \<times> rand" where
  "uniqueHosts address n r0 =
     fold (\<lambda>i (hosts, r).
             (let (m, r') = randomMAC r
              in (hosts @ [\<lparr> mac = m, ip = address (int i) \<rparr>], r')))
       [0 ..< nat n] ([], r0)"

definition randomHosts :: "int list \<Rightarrow> int \<Rightarrow> rand \<Rightarrow> host list \<times> rand" where
  "randomHosts prefix n r0 =
     fold (\<lambda>i (hosts, r).
             (let (m, r1) = randomMAC r; (a, r2) = randomIPv4 r1 prefix
              in (hosts @ [\<lparr> mac = m, ip = a \<rparr>], r2)))
       [0 ..< nat n] ([], r0)"

text \<open>
  The output path of file \<open>i\<close>: \<open>OutFile\<close>, or \<open>OutDir\<close> joined with \<open>generated_0000.pcap\<close>,
  or with \<open>generated_%06d.pcap\<close> when more than one file is requested.
\<close>

fun decimal :: "nat \<Rightarrow> string" where
  "decimal n = (if n < 10 then [char_of (48 + n)]
                else decimal (n div 10) @ [char_of (48 + n mod 10)])"

definition filePath :: "Config \<Rightarrow> int \<Rightarrow> string" where
  "filePath cfg i =
     (if OutFile cfg \<noteq> [] then OutFile cfg
      else OutDir cfg @ ''/'' @
        (if FileCount cfg > 1
         then ''generated_'' @ replicate (6 - length (decimal (nat i))) (CHR ''0'')
                @ decimal (nat i) @ ''.pcap''
         else ''generated_0000.pcap''))"

text \<open>
  The duration of a file when several are generated: 480 seconds scaled by the diurnal
  profile at the start instant's time of day, Saturday and Sunday counting as weekend.
  The epoch, 1 January 1970, was a Thursday.
\<close>

definition scaledDuration :: "int \<Rightarrow> int" where
  "scaledDuration startTime =
     (let secs = startTime div 1000000000;
          weekday = (secs div 86400 + 4) mod 7;
          isWeekend = (weekday = 6 \<or> weekday = 0);
          decimalHour = real_of_int (secs mod 86400 div 3600)
                        + real_of_int (secs mod 3600 div 60) / 60
                        + real_of_int (secs mod 60) / 3600;
          scale = durationScalar decimalHour isWeekend
      in wrap64 (trunc (480 * scale) * 1000000000))"

function Generate_files ::
  "Config \<Rightarrow> host list \<Rightarrow> host list \<Rightarrow> int \<Rightarrow> int \<times> rand \<times> (string \<times> pcap_record list) list
     \<Rightarrow> error + (int \<times> rand \<times> (string \<times> pcap_record list) list)" where
  "Generate_files cfg internal external i st =
     (if i < FileCount cfg then
        (case st of (startTime, r, files) \<Rightarrow>
          (case randomDuration r (MinDuration cfg) (MaxDuration cfg) of
             Inl e \<Rightarrow> Inl e
           | Inr (dur0, r1) \<Rightarrow>
              (let dur = (if FileCount cfg > 1 then scaledDuration startTime else dur0)
               in case (if FlowCount cfg > 0
                        then createPcapFileFlows startTime dur cfg (ExactBytes cfg) r1
                               internal external
                        else createPcapFile startTime dur (MaxSizeBytes cfg) (ExactBytes cfg) r1
                               internal external) of
                    Inl e \<Rightarrow> Inl e
                  | Inr (recs, r2) \<Rightarrow>
                      Generate_files cfg internal external (i + 1)
                        (startTime + dur, r2, files @ [(filePath cfg i, recs)]))))
      else Inr st)"
  by pat_completeness auto
termination
  by (relation "measure (\<lambda>(cfg, internal, external, i, st). nat (FileCount cfg - i))") auto

declare Generate_files.simps [simp del]

text \<open>
  \<open>Generate(cfg)\<close>. \<open>source\<close> stands for \<open>rand.New(rand.NewSource(seed))\<close>. The result is
  the list of files written, each with its path and records, or the error returned.
\<close>

definition Generate :: "(int \<Rightarrow> rand) \<Rightarrow> Config \<Rightarrow> error + (string \<times> pcap_record list) list" where
  "Generate source cfg =
     (case Generate_checks cfg of
        Some e \<Rightarrow> Inl e
      | None \<Rightarrow>
         (let randSrc = source (Seed cfg) in
          if FlowCount cfg > 0 \<and> InternalHosts cfg > 65536
            then Inl (Error ''internal-hosts exceeds 192.168.0.0/16 capacity (65536)'')
          else if FlowCount cfg > 0 \<and> ExternalHosts cfg > 16777216
            then Inl (Error ''external-hosts exceeds 10.0.0.0/8 capacity (16777216)'')
          else
           (let (internal, r1) =
                  (if FlowCount cfg > 0
                   then uniqueHosts uniqueInternalIPv4 (InternalHosts cfg) randSrc
                   else randomHosts [192, 168] (InternalHosts cfg) randSrc);
                (external, r2) =
                  (if FlowCount cfg > 0
                   then uniqueHosts uniqueExternalIPv4 (ExternalHosts cfg) r1
                   else randomHosts [] (ExternalHosts cfg) r1)
            in case Generate_files cfg internal external 0 (StartTime cfg, r2, []) of
                 Inl e \<Rightarrow> Inl e
               | Inr (startTime, r3, files) \<Rightarrow> Inr files)))"

text \<open>
  Two configurations: the README's example of an explicit output file with an exact size
  (here 180 bytes, two packets between one internal and one external host), and the default
  configuration, which sets a max-size and no exact size.
\<close>

definition outfile_exact_config :: Config where
  "outfile_exact_config =
     \<lparr> InternalHosts = 1, ExternalHosts = 1, MinDuration = 60000000000,
       MaxDuration = 60000000000, FileCount = 1, OutDir = ''.'', OutFile = ''my.pcap'',
       StartTime = 1475366400000000000, MaxSizeBytes = 300000000, ExactBytes = 180,
       Seed = 1, FlowCount = 0, PacketsPerFlow = 2 \<rparr>"

definition default_config :: Config where
  "default_config =
     \<lparr> InternalHosts = 50, ExternalHosts = 500, MinDuration = 60000000000,
       MaxDuration = 120000000000, FileCount = 1, OutDir = ''.'', OutFile = [],
       StartTime = 1475366400000000000, MaxSizeBytes = 300000000, ExactBytes = 0,
       Seed = 1, FlowCount = 0, PacketsPerFlow = 2 \<rparr>"

definition zero_source :: "int \<Rightarrow> rand" where
  "zero_source seed = (\<lambda>k. 0)"

text \<open>
  What fixed-flow generation writes at global packet index \<open>g\<close> of \<open>N\<close>: the timestamp
  \<open>g\<close> steps after the start, and \<open>payloadExtra\<close> bytes of payload on packet \<open>N - 1\<close> only.
\<close>

definition flowRecordAt :: "int \<Rightarrow> int \<Rightarrow> int \<Rightarrow> int \<Rightarrow> int \<Rightarrow> pcap_record \<Rightarrow> bool" where
  "flowRecordAt start usecStep payloadExtra N g rc =
     (Timestamp rc = start + wrap64 (wrap64 (g * usecStep) * 1000)
      \<and> int (length (Payload (Frame rc))) = (if g = N - 1 \<and> payloadExtra > 0 then payloadExtra else 0))"

text \<open>
  The scenario of the specification: ten internal and ten external hosts, fifty flows of
  one packet each; and a pool of ten hosts.
\<close>

definition flow_scenario_config :: Config where
  "flow_scenario_config =
     \<lparr> InternalHosts = 10, ExternalHosts = 10, MinDuration = 60000000000,
       MaxDuration = 60000000000, FileCount = 1, OutDir = ''.'', OutFile = [],
       StartTime = 0, MaxSizeBytes = 300000000, ExactBytes = 3930,
       Seed = 1, FlowCount = 50, PacketsPerFlow = 1 \<rparr>"

definition ten_hosts :: "host list" where
  "ten_hosts = map (\<lambda>i. \<lparr> mac = [0, 0, 0, 0, 0, byte_of i], ip = uniqueExternalIPv4 i \<rparr>)
                 [0, 1, 2, 3, 4, 5, 6, 7, 8, 9]"



section \<open>genflux: the size-string parser\<close>

text \<open>
  A \<open>float64\<close> that may be a special value. Finite values are real numbers, as in the
  traffic model; \<open>num <= 0\<close> is false for NaN, and the product with a positive multiplier
  and \<open>math.Round\<close> (half away from zero) keep a special value.
\<close>

datatype float64 = Finite real | PosInf | NegInf | NaN

definition f64_le_zero :: "float64 \<Rightarrow> bool" where
  "f64_le_zero f = (case f of Finite v \<Rightarrow> v \<le> 0 | NegInf \<Rightarrow> True | PosInf \<Rightarrow> False | NaN \<Rightarrow> False)"

definition f64_times :: "float64 \<Rightarrow> int \<Rightarrow> float64" where
  "f64_times f mult = (case f of Finite v \<Rightarrow> Finite (v * of_int mult) | other \<Rightarrow> other)"

definition math_Round :: "float64 \<Rightarrow> float64" where
  "math_Round f =
     (case f of
        Finite v \<Rightarrow> Finite (of_int (if v \<ge> 0 then \<lfloor>v + 1 / 2\<rfloor> else - \<lfloor>- v + 1 / 2\<rfloor>))
      | other \<Rightarrow> other)"

text \<open>
  The conversion \<open>int64(f)\<close> truncates a finite value in range. For NaN, an infinity or a
  value out of range Go leaves the result to the implementation; \<open>other\<close> stands for it.
\<close>

definition int64_of :: "(float64 \<Rightarrow> int) \<Rightarrow> float64 \<Rightarrow> int" where
  "int64_of other f =
     (case f of
        Finite v \<Rightarrow> (if - (2 ^ 63) \<le> trunc v \<and> trunc v < 2 ^ 63 then trunc v else other f)
      | _ \<Rightarrow> other f)"

text \<open>
  \<open>strings.ToLower\<close>, \<open>strings.TrimSpace\<close>, \<open>strings.HasSuffix\<close> and
  \<open>strings.TrimSuffix\<close> on strings of ASCII characters.
\<close>

definition ToLower :: "string \<Rightarrow> string" where
  "ToLower s = map (\<lambda>c. if 65 \<le> (of_char c :: nat) \<and> (of_char c :: nat) \<le> 90
                          then char_of ((of_char c :: nat) + 32) else c) s"

definition isSpace :: "char \<Rightarrow> bool" where
  "isSpace c = ((of_char c :: nat) \<in> {9, 10, 11, 12, 13, 32})"

definition TrimSpace :: "string \<Rightarrow> string" where
  "TrimSpace s = rev (dropWhile isSpace (rev (dropWhile isSpace s)))"

definition HasSuffix :: "string \<Rightarrow> string \<Rightarrow> bool" where
  "HasSuffix s suffix =
     (length suffix \<le> length s \<and> drop (length s - length suffix) s = suffix)"

definition TrimSuffix :: "string \<Rightarrow> string \<Rightarrow> string" where
  "TrimSuffix s suffix = (if HasSuffix s suffix then take (length s - length suffix) s else s)"

text \<open>
  \<open>parseSize(value)\<close>. \<open>strconv.ParseFloat\<close> belongs to the Go library, not to the
  repository, and is a parameter here, as is the implementation's conversion of a float
  that \<open>int64\<close> cannot hold. The \<open>switch\<close> takes the first suffix that matches.
\<close>

definition sizeUnit :: "string \<Rightarrow> int \<times> string" where
  "sizeUnit v =
     (if HasSuffix v ''tib'' then (1024 * 1024 * 1024 * 1024, TrimSuffix v ''tib'')
      else if HasSuffix v ''tb'' \<or> HasSuffix v ''t''
        then (1024 * 1024 * 1024 * 1024, TrimSuffix (TrimSuffix v ''tb'') ''t'')
      else if HasSuffix v ''gib'' then (1024 * 1024 * 1024, TrimSuffix v ''gib'')
      else if HasSuffix v ''gb'' \<or> HasSuffix v ''g''
        then (1024 * 1024 * 1024, TrimSuffix (TrimSuffix v ''gb'') ''g'')
      else if HasSuffix v ''mib'' then (1024 * 1024, TrimSuffix v ''mib'')
      else if HasSuffix v ''mb'' \<or> HasSuffix v ''m''
        then (1024 * 1024, TrimSuffix (TrimSuffix v ''mb'') ''m'')
      else if HasSuffix v ''kib'' then (1024, TrimSuffix v ''kib'')
      else if HasSuffix v ''kb'' \<or> HasSuffix v ''k''
        then (1024, TrimSuffix (TrimSuffix v ''kb'') ''k'')
      else if HasSuffix v ''b'' then (1, TrimSuffix v ''b'')
      else (1, v))"

definition parseSize ::
  "(string \<Rightarrow> error + float64) \<Rightarrow> (float64 \<Rightarrow> int) \<Rightarrow> string \<Rightarrow> error + int" where
  "parseSize ParseFloat other value =
     (let v = TrimSpace (ToLower value) in
      if v = [] then Inl (Error ''empty size'')
      else
       (let (mult, v1) = sizeUnit v;
            v2 = TrimSpace v1
        in if v2 = [] then Inl (Error ''missing numeric value'')
           else (case ParseFloat v2 of
                   Inl err \<Rightarrow> Inl err
                 | Inr num \<Rightarrow>
                     if f64_le_zero num then Inl (Error ''size must be > 0'')
                     else Inr (int64_of other (math_Round (f64_times num mult))))))"

text \<open>
  A parser that agrees with \<open>strconv.ParseFloat\<close> on the strings listed and rejects every
  other string, and the conversion of linux/amd64, which gives the smallest \<open>int64\<close>.
\<close>

definition tableParseFloat :: "string \<Rightarrow> error + float64" where
  "tableParseFloat s =
     (if s = ''1'' then Inr (Finite 1)
      else if s = ''0.5'' then Inr (Finite (1 / 2))
      else if s = ''200'' then Inr (Finite 200)
      else if s = ''0'' then Inr (Finite 0)
      else if s = ''-5'' then Inr (Finite (- 5))
      else if s = ''nan'' then Inr NaN
      else if s = ''inf'' then Inr PosInf
      else Inl (Error ''invalid syntax''))"

definition amd64_other :: "float64 \<Rightarrow> int" where
  "amd64_other f = - (2 ^ 63)"

text \<open>The text \<open>parseSize\<close> hands to \<open>strconv.ParseFloat\<close>.\<close>

definition numericPart :: "string \<Rightarrow> string" where
  "numericPart value = TrimSpace (snd (sizeUnit (TrimSpace (ToLower value))))"

section \<open>Arithmetic of the machine integers\<close>

lemma wrap64_id: "- (2 ^ 63) \<le> x \<Longrightarrow> x < 2 ^ 63 \<Longrightarrow> wrap64 x = x"
  by (simp add: wrap64_def)

lemma go_div_nonneg:
  assumes "0 \<le> a" "0 < b" "a < 2 ^ 63"
  shows "go_div a b = a div b"
proof -
  have "a div b \<le> a" using zdiv_mono2[of a 1 b] assms by simp
  moreover have "0 \<le> a div b" using assms by (simp add: pos_imp_zdiv_nonneg_iff)
  ultimately have "wrap64 (a div b) = a div b" using assms by (intro wrap64_id) auto
  moreover have "sgn a * sgn b * (\<bar>a\<bar> div \<bar>b\<bar>) = a div b"
    using assms by (cases "a = 0") (auto simp: sgn_if)
  ultimately show ?thesis by (simp add: go_div_def)
qed

lemma go_mod_nonneg: "0 \<le> a \<Longrightarrow> 0 < b \<Longrightarrow> go_mod a b = a mod b"
  by (cases "a = 0") (auto simp: go_mod_def sgn_if)

lemma div_less_of_less_mult:
  assumes "0 < (E::int)" "k < I * E"
  shows "k div E < I"
proof (rule ccontr)
  assume "\<not> k div E < I"
  then have "I * E \<le> k div E * E" using assms by (simp add: mult_right_mono)
  moreover have "k div E * E \<le> k"
    using assms pos_mod_sign[of E k] div_mult_mod_eq[of k E] by linarith
  ultimately show False using assms by linarith
qed

lemma div_mod_of_pair:
  assumes "0 \<le> b" "b < (E::int)"
  shows "(a * E + b) div E = a" "(a * E + b) mod E = b"
proof -
  have eq: "a * E + b = E * a + b" by simp
  show "(a * E + b) div E = a" using int_div_pos_eq[OF eq assms] .
  show "(a * E + b) mod E = b" using int_mod_pos_eq[OF eq assms] .
qed

lemma pair_less_mult:
  assumes "0 \<le> a" "a < (I::int)" "0 \<le> b" "b < E"
  shows "a * E + b < I * E"
proof -
  have "a + 1 \<le> I" using assms by simp
  then have "(a + 1) * E \<le> I * E" using assms by (intro mult_right_mono) auto
  moreover have "(a + 1) * E = a * E + E" by (simp add: algebra_simps)
  ultimately show ?thesis using assms by linarith
qed

section \<open>The flow-index mapping\<close>

lemma flowIndexToHosts_low:
  assumes "0 < I" "0 < E" "2 * (I * E) \<le> 2 ^ 63" "0 \<le> idx" "idx < I * E"
  shows "flowIndexToHosts idx I E = Inr (idx div E, idx mod E, True)"
proof -
  have pos: "0 < I * E" using assms by simp
  have lt: "I * E < 2 ^ 63" using assms pos by linarith
  have w: "wrap64 (I * E) = I * E" using pos lt by (intro wrap64_id) linarith+
  have "idx < 2 ^ 63" using assms lt by linarith
  then have "go_div idx E = idx div E" "go_mod idx E = idx mod E"
    using assms by (simp_all add: go_div_nonneg go_mod_nonneg)
  then show ?thesis
    using assms(2,5) w by (simp add: flowIndexToHosts_def)
qed

lemma flowIndexToHosts_high:
  assumes "0 < I" "0 < E" "2 * (I * E) \<le> 2 ^ 63" "I * E \<le> idx" "idx < 2 * (I * E)"
  shows "flowIndexToHosts idx I E = Inr ((idx - I * E) div E, (idx - I * E) mod E, False)"
proof -
  have pos: "0 < I * E" using assms by simp
  have lt: "I * E < 2 ^ 63" using assms pos by linarith
  have w: "wrap64 (I * E) = I * E" using pos lt by (intro wrap64_id) linarith+
  have d: "0 \<le> idx - I * E" "idx - I * E < 2 ^ 63" using assms lt by linarith+
  then have w2: "wrap64 (idx - I * E) = idx - I * E" by (intro wrap64_id) linarith+
  have "go_div (idx - I * E) E = (idx - I * E) div E"
       "go_mod (idx - I * E) E = (idx - I * E) mod E"
    using assms(2) d by (simp_all add: go_div_nonneg go_mod_nonneg)
  moreover have "\<not> idx < I * E" using assms by linarith
  ultimately show ?thesis
    using assms(2) w w2 by (simp add: flowIndexToHosts_def Let_def)
qed

lemma hostsToFlowIndex_flowIndexToHosts:
  assumes "0 < I" "0 < E" "2 * (I * E) \<le> 2 ^ 63" "0 \<le> idx" "idx < 2 * (I * E)"
  shows "hostsToFlowIndex I E (flowIndexToHosts idx I E) = idx"
proof (cases "idx < I * E")
  case True
  then have "flowIndexToHosts idx I E = Inr (idx div E, idx mod E, True)"
    using assms by (intro flowIndexToHosts_low) auto
  then show ?thesis by (simp add: hostsToFlowIndex_def)
next
  case False
  then have "flowIndexToHosts idx I E = Inr ((idx - I * E) div E, (idx - I * E) mod E, False)"
    using assms by (intro flowIndexToHosts_high) auto
  then show ?thesis by (simp add: hostsToFlowIndex_def)
qed

lemma flowIndexToHosts_range:
  assumes "0 < I" "0 < E" "2 * (I * E) \<le> 2 ^ 63" "0 \<le> idx" "idx < 2 * (I * E)"
  shows "flowIndexToHosts idx I E \<in> Inr ` ({0..<I} \<times> {0..<E} \<times> UNIV)"
proof (cases "idx < I * E")
  case True
  have "idx div E < I" using assms True by (intro div_less_of_less_mult) auto
  moreover have "0 \<le> idx div E" using assms by (simp add: pos_imp_zdiv_nonneg_iff)
  moreover have "flowIndexToHosts idx I E = Inr (idx div E, idx mod E, True)"
    using assms True by (intro flowIndexToHosts_low) auto
  ultimately show ?thesis using assms(2) by (simp add: image_iff)
next
  case False
  let ?k = "idx - I * E"
  have k: "0 \<le> ?k" "?k < I * E" using assms False by linarith+
  have "?k div E < I" using assms k by (intro div_less_of_less_mult) auto
  moreover have "0 \<le> ?k div E" using assms k by (simp add: pos_imp_zdiv_nonneg_iff)
  moreover have "flowIndexToHosts idx I E = Inr (?k div E, ?k mod E, False)"
    using assms False by (intro flowIndexToHosts_high) auto
  ultimately show ?thesis using assms(2) by (simp add: image_iff)
qed

lemma flowIndexToHosts_hostsToFlowIndex:
  assumes "0 < I" "0 < E" "2 * (I * E) \<le> 2 ^ 63" "0 \<le> a" "a < I" "0 \<le> b" "b < E"
  shows "flowIndexToHosts (hostsToFlowIndex I E (Inr (a, b, d))) I E = Inr (a, b, d)"
    and "0 \<le> hostsToFlowIndex I E (Inr (a, b, d))"
    and "hostsToFlowIndex I E (Inr (a, b, d)) < 2 * (I * E)"
proof -
  let ?k = "a * E + b"
  have k: "0 \<le> ?k" "?k < I * E" using assms pair_less_mult[of a I b E] by simp_all
  have ie: "0 < I * E" using assms by simp
  show "flowIndexToHosts (hostsToFlowIndex I E (Inr (a, b, d))) I E = Inr (a, b, d)"
  proof (cases d)
    case True
    have "flowIndexToHosts ?k I E = Inr (?k div E, ?k mod E, True)"
      using assms(1-3) k by (intro flowIndexToHosts_low) auto
    then show ?thesis
      using True div_mod_of_pair[OF assms(6,7), of a] by (simp add: hostsToFlowIndex_def)
  next
    case False
    have "I * E \<le> I * E + ?k" "I * E + ?k < 2 * (I * E)" using k by linarith+
    then have "flowIndexToHosts (I * E + ?k) I E
            = Inr ((I * E + ?k - I * E) div E, (I * E + ?k - I * E) mod E, False)"
      using assms(1-3) by (intro flowIndexToHosts_high) auto
    moreover have "I * E + ?k - I * E = ?k" by simp
    ultimately have "flowIndexToHosts (I * E + ?k) I E = Inr (a, b, False)"
      using div_mod_of_pair[OF assms(6,7), of a] by simp
    then show ?thesis
      using False by (simp add: hostsToFlowIndex_def add.assoc)
  qed
  have h: "hostsToFlowIndex I E (Inr (a, b, d)) = ?k \<or> hostsToFlowIndex I E (Inr (a, b, d)) = I * E + ?k"
    by (cases d) (simp_all add: hostsToFlowIndex_def add.assoc)
  show "0 \<le> hostsToFlowIndex I E (Inr (a, b, d))"
    using h k ie by linarith
  show "hostsToFlowIndex I E (Inr (a, b, d)) < 2 * (I * E)"
    using h k ie by linarith
qed

text \<open>
  Claim C3. For positive pool sizes \<open>I\<close> and \<open>E\<close> whose index range \<open>0 .. 2*I*E - 1\<close> consists of
  Go integers, \<open>flowIndexToHosts\<close> maps the indices one-to-one onto the triples
  (internal index below \<open>I\<close>, external index below \<open>E\<close>, direction): indices below \<open>I*E\<close> go to
  \<open>(idx / E, idx % E, internal-as-source)\<close>, the others to the same quotient and remainder
  of \<open>idx - I*E\<close> with external-as-source.
\<close>

theorem flowIndexToHosts_bijection:
  assumes "0 < I" "0 < E" "2 * I * E \<le> 2 ^ 63"
  shows "bij_betw (\<lambda>idx. flowIndexToHosts idx I E) {0 ..< 2 * I * E}
           (Inr ` ({0 ..< I} \<times> {0 ..< E} \<times> UNIV))
         \<and> (\<forall>idx \<in> {0 ..< 2 * I * E}. flowIndexToHosts idx I E =
               (if idx < I * E then Inr (idx div E, idx mod E, True)
                else Inr ((idx - I * E) div E, (idx - I * E) mod E, False)))"
proof
  have eq: "2 * I * E = 2 * (I * E)" by simp
  have b: "2 * (I * E) \<le> 2 ^ 63" using assms(3) unfolding eq .
  note A = assms(1,2) b
  show "bij_betw (\<lambda>idx. flowIndexToHosts idx I E) {0 ..< 2 * I * E}
           (Inr ` ({0 ..< I} \<times> {0 ..< E} \<times> UNIV))"
    unfolding eq
  proof (rule bij_betw_byWitness[where f' = "hostsToFlowIndex I E"])
    show "\<forall>idx \<in> {0 ..< 2 * (I * E)}. hostsToFlowIndex I E (flowIndexToHosts idx I E) = idx"
    proof
      fix idx assume "idx \<in> {0 ..< 2 * (I * E)}"
      then have "0 \<le> idx" "idx < 2 * (I * E)" by simp_all
      then show "hostsToFlowIndex I E (flowIndexToHosts idx I E) = idx"
        by (rule hostsToFlowIndex_flowIndexToHosts[OF A])
    qed
    show "\<forall>r \<in> Inr ` ({0 ..< I} \<times> {0 ..< E} \<times> UNIV).
            flowIndexToHosts (hostsToFlowIndex I E r) I E = r"
    proof
      fix r :: "error + (int \<times> int \<times> bool)"
      assume "r \<in> Inr ` ({0 ..< I} \<times> {0 ..< E} \<times> UNIV)"
      then obtain a b' d where r: "r = Inr (a, b', d)" and "0 \<le> a" "a < I" "0 \<le> b'" "b' < E"
        by auto
      then show "flowIndexToHosts (hostsToFlowIndex I E r) I E = r"
        using flowIndexToHosts_hostsToFlowIndex(1)[OF A] by simp
    qed
    show "(\<lambda>idx. flowIndexToHosts idx I E) ` {0 ..< 2 * (I * E)}
            \<subseteq> Inr ` ({0 ..< I} \<times> {0 ..< E} \<times> UNIV)"
    proof
      fix r assume "r \<in> (\<lambda>idx. flowIndexToHosts idx I E) ` {0 ..< 2 * (I * E)}"
      then obtain idx where "r = flowIndexToHosts idx I E" "0 \<le> idx" "idx < 2 * (I * E)"
        by auto
      then show "r \<in> Inr ` ({0 ..< I} \<times> {0 ..< E} \<times> UNIV)"
        using flowIndexToHosts_range[OF A] by simp
    qed
    show "hostsToFlowIndex I E ` Inr ` ({0 ..< I} \<times> {0 ..< E} \<times> UNIV) \<subseteq> {0 ..< 2 * (I * E)}"
    proof
      fix k assume "k \<in> hostsToFlowIndex I E ` Inr ` ({0 ..< I} \<times> {0 ..< E} \<times> UNIV)"
      then obtain a b' d where k: "k = hostsToFlowIndex I E (Inr (a, b', d))"
        and ab: "0 \<le> a" "a < I" "0 \<le> b'" "b' < E"
        by auto
      show "k \<in> {0 ..< 2 * (I * E)}"
        using flowIndexToHosts_hostsToFlowIndex(2,3)[OF A ab, of d] k by simp
    qed
  qed
  show "\<forall>idx \<in> {0 ..< 2 * I * E}. flowIndexToHosts idx I E =
               (if idx < I * E then Inr (idx div E, idx mod E, True)
                else Inr ((idx - I * E) div E, (idx - I * E) mod E, False))"
    unfolding eq
  proof
    fix idx assume "idx \<in> {0 ..< 2 * (I * E)}"
    then have i: "0 \<le> idx" "idx < 2 * (I * E)" by simp_all
    show "flowIndexToHosts idx I E =
               (if idx < I * E then Inr (idx div E, idx mod E, True)
                else Inr ((idx - I * E) div E, (idx - I * E) mod E, False))"
    proof (cases "idx < I * E")
      case True
      then show ?thesis using flowIndexToHosts_low[OF A i(1)] by simp
    next
      case False
      then have "I * E \<le> idx" by simp
      then show ?thesis using flowIndexToHosts_high[OF A _ i(2)] False by simp
    qed
  qed
qed

theorem flowIndexToHosts_bijection_witness:
  "(0::int) < 2 \<and> (0::int) < 3 \<and> 2 * 2 * 3 \<le> (2::int) ^ 63
   \<and> bij_betw (\<lambda>idx. flowIndexToHosts idx 2 3) {0 ..< 2 * 2 * 3}
         (Inr ` ({0 ..< 2} \<times> {0 ..< 3} \<times> UNIV))
   \<and> flowIndexToHosts 7 2 3 = Inr (0, 1, False)"
proof -
  have h: "(0::int) < 2" "(0::int) < 3" "2 * 2 * 3 \<le> (2::int) ^ 63" by simp_all
  note t = flowIndexToHosts_bijection[OF h]
  have "(7::int) \<in> {0 ..< 2 * 2 * 3}" by simp
  with t have "flowIndexToHosts 7 2 3 = Inr (0, 1, False)" by simp
  with t h show ?thesis by blast
qed

section \<open>Capacity-unique host addresses\<close>

lemma byte_of_eq:
  "0 \<le> a \<Longrightarrow> a < 256 \<Longrightarrow> 0 \<le> b \<Longrightarrow> b < 256 \<Longrightarrow> byte_of a = byte_of b \<Longrightarrow> a = b"
  unfolding byte_of_def
  by (simp add: word_of_int_eq_iff take_bit_eq_mod)

lemma and255: "(x::int) AND 255 = x mod 256"
proof -
  have "(x::int) AND mask 8 = take_bit 8 x" by (simp add: take_bit_eq_mask)
  then show ?thesis by (simp add: take_bit_eq_mod mask_eq_exp_minus_1)
qed

lemma uniqueInternalIPv4_inj:
  assumes "0 \<le> i" "i < 65536" "0 \<le> j" "j < 65536"
    and "uniqueInternalIPv4 i = uniqueInternalIPv4 j"
  shows "i = j"
proof -
  have d: "byte_of (i div 256) = byte_of (j div 256)"
    and m: "byte_of (i mod 256) = byte_of (j mod 256)"
    using assms by (simp_all add: uniqueInternalIPv4_def go_div_nonneg go_mod_nonneg)
  have "i div 256 = j div 256" using assms by (intro byte_of_eq[OF _ _ _ _ d]) auto
  moreover have "i mod 256 = j mod 256" using assms by (intro byte_of_eq[OF _ _ _ _ m]) auto
  moreover have "i = i div 256 * 256 + i mod 256" "j = j div 256 * 256 + j mod 256"
    by simp_all
  ultimately show ?thesis by simp
qed

lemma uniqueExternalIPv4_inj:
  assumes "0 \<le> i" "i < 16777216" "0 \<le> j" "j < 16777216"
    and "uniqueExternalIPv4 i = uniqueExternalIPv4 j"
  shows "i = j"
proof -
  have a: "byte_of (i div 65536 mod 256) = byte_of (j div 65536 mod 256)"
    and b: "byte_of (i div 256 mod 256) = byte_of (j div 256 mod 256)"
    and c: "byte_of (i mod 256) = byte_of (j mod 256)"
    using assms by (simp_all add: uniqueExternalIPv4_def and255 drop_bit_eq_div)
  have a': "i div 65536 mod 256 = j div 65536 mod 256"
    by (intro byte_of_eq[OF _ _ _ _ a]) auto
  have b': "i div 256 mod 256 = j div 256 mod 256"
    by (intro byte_of_eq[OF _ _ _ _ b]) auto
  have c': "i mod 256 = j mod 256"
    by (intro byte_of_eq[OF _ _ _ _ c]) auto
  have hi: "i div 256 div 256 = i div 65536" "j div 256 div 256 = j div 65536"
    by (simp_all add: div_mult2_eq[symmetric])
  have "i div 65536 = j div 65536" using a' assms by simp
  then have "i div 256 div 256 = j div 256 div 256" using hi by simp
  moreover have "i div 256 = i div 256 div 256 * 256 + i div 256 mod 256"
    "j div 256 = j div 256 div 256 * 256 + j div 256 mod 256" by simp_all
  ultimately have "i div 256 = j div 256" using b' by simp
  moreover have "i = i div 256 * 256 + i mod 256" "j = j div 256 * 256 + j mod 256"
    by simp_all
  ultimately show ?thesis using c' by simp
qed

text \<open>
  Claim C4. In capacity-unique host assignment the addresses of the indices \<open>0 .. N - 1\<close> are
  pairwise distinct for every pool size \<open>N\<close> within capacity: at most 65536 for the internal
  pool 192.168.0.0/16 and at most 16777216 for the external pool 10.0.0.0/8. Each
  index-to-address function is injective on its capacity range.
\<close>

theorem unique_addresses_distinct:
  "(N \<le> 65536 \<longrightarrow> distinct (map uniqueInternalIPv4 [0 .. N - 1]))
   \<and> (N \<le> 16777216 \<longrightarrow> distinct (map uniqueExternalIPv4 [0 .. N - 1]))
   \<and> inj_on uniqueInternalIPv4 {0 ..< 65536}
   \<and> inj_on uniqueExternalIPv4 {0 ..< 16777216}"
proof -
  have i: "inj_on uniqueInternalIPv4 {0 ..< 65536}"
    by (rule inj_onI) (simp add: uniqueInternalIPv4_inj)
  have e: "inj_on uniqueExternalIPv4 {0 ..< 16777216}"
    by (rule inj_onI) (simp add: uniqueExternalIPv4_inj)
  have "distinct (map uniqueInternalIPv4 [0 .. N - 1])" if "N \<le> 65536"
  proof -
    have "set [0 .. N - 1] \<subseteq> {0 ..< 65536}" using that by auto
    then show ?thesis using i by (simp add: distinct_map inj_on_subset del: set_upto)
  qed
  moreover have "distinct (map uniqueExternalIPv4 [0 .. N - 1])" if "N \<le> 16777216"
  proof -
    have "set [0 .. N - 1] \<subseteq> {0 ..< 16777216}" using that by auto
    then show ?thesis using e by (simp add: distinct_map inj_on_subset del: set_upto)
  qed
  ultimately show ?thesis using i e by blast
qed

theorem unique_addresses_distinct_witness:
  "(3::int) \<le> 65536 \<and> (3::int) \<le> 16777216
   \<and> distinct [uniqueInternalIPv4 0, uniqueInternalIPv4 1, uniqueInternalIPv4 2]
   \<and> distinct [uniqueExternalIPv4 0, uniqueExternalIPv4 1, uniqueExternalIPv4 2]
   \<and> uniqueInternalIPv4 65535 \<noteq> uniqueInternalIPv4 255
   \<and> uniqueExternalIPv4 16777215 \<noteq> uniqueExternalIPv4 65535"
proof -
  have u: "[0 .. (3::int) - 1] = [0, 1, 2]" by (simp add: upto.simps)
  have d: "distinct (map uniqueInternalIPv4 [0 .. 3 - 1])"
          "distinct (map uniqueExternalIPv4 [0 .. 3 - 1])"
    using unique_addresses_distinct[of 3] by simp_all
  have "(65535::int) \<in> {0 ..< 65536}" "(255::int) \<in> {0 ..< 65536}"
       "(16777215::int) \<in> {0 ..< 16777216}" "(65535::int) \<in> {0 ..< 16777216}" by simp_all
  then have "uniqueInternalIPv4 65535 \<noteq> uniqueInternalIPv4 255"
    "uniqueExternalIPv4 16777215 \<noteq> uniqueExternalIPv4 65535"
    using unique_addresses_distinct[of 3] by (auto dest: inj_onD)
  with d show ?thesis unfolding u by simp
qed

section \<open>Replay: the packet ceiling across loops\<close>

text \<open>
  One pass over the capture. With \<open>r\<close> packets of the ceiling left and the per-loop counter at
  \<open>tp\<close>, the packet loop sends as long as \<open>tp + j < r - j\<close>, that is
  \<open>(r - tp + 1) div 2\<close> packets when the capture is long enough, and lowers the ceiling by as
  many.
\<close>

lemma replayOnce_packets_sends:
  assumes ok: "readError w = None" "\<forall>k. sendError w k = None"
    and r: "0 \<le> r" "r < 2 ^ 62" and tp: "0 \<le> tp" "tp < 2 ^ 62 - int (length ps)"
    and st: "remaining st = Some r"
  shows "\<exists>st'. replayOnce_packets w ps tp st = Inr st'
           \<and> length (sent st') = length (sent st) + min (length ps) (nat ((r - tp + 1) div 2))
           \<and> remaining st' = Some (r - int (min (length ps) (nat ((r - tp + 1) div 2))))"
  using r tp st
proof (induction ps arbitrary: tp st r)
  case Nil
  then show ?case using ok by simp
next
  case (Cons p ps)
  show ?case
  proof (cases "r = 0 \<or> tp \<ge> r")
    case True
    then have "(r - tp + 1) div 2 \<le> 0" using Cons.prems by auto
    then show ?thesis using True Cons.prems by auto
  next
    case False
    then have lt: "0 < r" "tp < r" using Cons.prems by auto
    let ?st1 = "st\<lparr> sent := sent st @ [pktData p], remaining := Some (r - 1) \<rparr>"
    have w1: "wrap64 (tp + 1) = tp + 1" using Cons.prems by (intro wrap64_id) auto
    have w2: "wrap64 (r - 1) = r - 1" using Cons.prems lt by (intro wrap64_id) auto
    have step: "replayOnce_packets w (p # ps) tp st = replayOnce_packets w ps (tp + 1) ?st1"
      using lt ok Cons.prems(5) by (simp add: w1 w2)
    obtain st' where res: "replayOnce_packets w ps (tp + 1) ?st1 = Inr st'"
      and len: "length (sent st') = length (sent ?st1)
                  + min (length ps) (nat ((r - 1 - (tp + 1) + 1) div 2))"
      and rem: "remaining st' = Some (r - 1 - int (min (length ps) (nat ((r - 1 - (tp + 1) + 1) div 2))))"
      using Cons.IH[of "r - 1" "tp + 1" ?st1] Cons.prems lt by auto
    have d: "(r - tp + 1) div 2 = (r - 1 - (tp + 1) + 1) div 2 + 1" by simp
    have nn: "0 \<le> (r - 1 - (tp + 1) + 1) div 2" using lt by simp
    have m: "min (length (p # ps)) (nat ((r - tp + 1) div 2))
               = Suc (min (length ps) (nat ((r - 1 - (tp + 1) + 1) div 2)))"
      unfolding d using nn by (simp add: nat_add_distrib)
    show ?thesis
      unfolding m using step res len rem by simp
  qed
qed

text \<open>
  Hence with \<open>loop = 3\<close> and \<open>limit = 10\<close>, on every capture of at least ten packets and with
  every system call succeeding, the three iterations send five, three and one packet: nine in
  all (stated for the timestamp mode; the mode only delays).
\<close>

lemma Replay_loop3_limit10_general:
  assumes w: "ifaceError w = None" "socketError w = None" "bindError w = None"
      "openError w = None" "readError w = None" "\<forall>k. sendError w k = None"
    and cfg: "InPath cfg \<noteq> []" "Iface cfg \<noteq> []" "Mode cfg = ModeTimestamp"
      "Loop cfg = 3" "Limit cfg = 10"
    and n: "10 \<le> length (capture w)" "int (length (capture w)) < 2 ^ 61"
  shows "\<exists>st. Replay w cfg = Some (Inr st) \<and> length (sent st) = 9 \<and> remaining st = Some 1"
proof -
  define cfg' where "cfg' = (if StatsInterval cfg \<le> 0 then cfg\<lparr> StatsInterval := 1000000000 \<rparr> else cfg)"
  have c': "Loop cfg' = 3" "Limit cfg' = 10" using cfg by (simp_all add: cfg'_def)
  let ?st0 = "\<lparr> remaining = Some 10, sent = [] \<rparr>"
  have R: "Replay w cfg = Replay_loops w cfg' 0 ?st0"
    using w cfg by (simp add: Replay_def Let_def cfg'_def)
  have once: "\<exists>st'. replayOnce w cfg' st = Inr st'
           \<and> length (sent st') = length (sent st) + min (length (capture w)) (nat ((r + 1) div 2))
           \<and> remaining st' = Some (r - int (min (length (capture w)) (nat ((r + 1) div 2))))"
    if "remaining st = Some r" "0 \<le> r" "r \<le> 10" for st r
    using replayOnce_packets_sends[OF w(5,6), of r 0 "capture w" st] that n w(4)
    by (simp add: replayOnce_def)
  obtain st1 where s1: "replayOnce w cfg' ?st0 = Inr st1" "length (sent st1) = 5" "remaining st1 = Some 5"
    using once[of ?st0 10] n by auto
  obtain st2 where s2: "replayOnce w cfg' st1 = Inr st2" "length (sent st2) = 8" "remaining st2 = Some 2"
    using once[of st1 5] s1 n by auto
  obtain st3 where s3: "replayOnce w cfg' st2 = Inr st3" "length (sent st3) = 9" "remaining st3 = Some 1"
    using once[of st2 2] s2 n by auto
  have "Replay_loops w cfg' 0 ?st0 = Some (Inr st3)"
    by (simp add: Replay_loops.simps[of w cfg'] c' s1 s2 s3 wrap64_def)
  then show ?thesis using R s3 by simp
qed

text \<open>
  Claim C2, evaluated on the code. With \<open>loop = 3\<close> and \<open>limit = 10\<close> on a capture of ten
  packets, every system call succeeding, \<open>Replay\<close> returns without error after handing nine
  frames to \<open>Sendto\<close>: five in the first iteration, three in the second and one in the third,
  with one packet of the ceiling left. The second guard of \<open>replayOnce\<close> compares the
  per-loop counter \<open>totalPackets\<close> with the ceiling that each transmission has already
  lowered, so an iteration stops once it has sent half of what was left.
\<close>

theorem Replay_loop3_limit10_sends_nine:
  "Replay (quiet_world ten_packets) loop3_limit10 =
     Some (Inr \<lparr> remaining = Some 1,
                 sent = [[0], [1], [2], [3], [4], [0], [1], [2], [0]] \<rparr>)"
  by (simp add: Replay_def loop3_limit10_def quiet_world_def ten_packets_def
        Replay_loops.simps replayOnce_def wrap64_def byte_of_def)

section \<open>The diurnal profile\<close>




















text \<open>
  Claim C10. For every real hour and each weekend flag the value of \<open>durationScalar\<close> lies in
  [0,1], and for an hour outside [0,24), that is \<open>hour < 0\<close> or \<open>hour >= 24\<close>, it is exactly 0.
\<close>

theorem durationScalar_range:
  "0 \<le> durationScalar hour weekend \<and> durationScalar hour weekend \<le> 1
   \<and> (hour < 0 \<or> hour \<ge> 24 \<longrightarrow> durationScalar hour weekend = 0)"
  by (simp add: durationScalar_def Let_def)

theorem durationScalar_range_witness:
  "(-1::real) < 0 \<and> durationScalar (-1) True = 0
   \<and> (24::real) \<le> 1000 \<and> durationScalar 1000 False = 0
   \<and> 0 \<le> durationScalar (25 / 2) True \<and> durationScalar (25 / 2) True \<le> 1"
  using durationScalar_range[of "-1" True] durationScalar_range[of 1000 False]
    durationScalar_range[of "25 / 2" True]
  by simp

section \<open>Generate: the configuration checks\<close>

lemma Generate_error_of_checks:
  "Generate_checks cfg = Some e \<Longrightarrow> Generate source cfg = Inl e"
  by (simp add: Generate_def)

text \<open>
  Claim C6 as stated fails: the README's combination of an explicit output file with an
  exact size and \<open>FileCount = 1\<close> passes every check, and \<open>Generate\<close> writes the file.
\<close>

theorem Generate_outfile_exact_counterexample:
  "OutFile outfile_exact_config \<noteq> [] \<and> ExactBytes outfile_exact_config > 0
   \<and> FileCount outfile_exact_config = 1
   \<and> Generate_checks outfile_exact_config = None
   \<and> \<not> isl (Generate zero_source outfile_exact_config)
   \<and> map (\<lambda>(path, recs). (path, length recs, fileSize recs))
         (projr (Generate zero_source outfile_exact_config)) = [(''my.pcap'', 2, 180)]"
  by code_simp

text \<open>
  Claim C6, as amended. A configuration in which an explicit output file path or the
  exact-size feature is combined with multi-file generation (\<open>FileCount\<close> other than 1) is
  rejected by the checks before anything is generated. An explicit output file path
  combined with exact-size and \<open>FileCount = 1\<close> is accepted by the checks whenever the host
  counts, the duration range and the flow parameters are valid.
\<close>

theorem Generate_single_file_checks:
  "((OutFile cfg \<noteq> [] \<or> ExactBytes cfg > 0) \<and> FileCount cfg \<noteq> 1
      \<longrightarrow> Generate_checks cfg \<noteq> None \<and> isl (Generate source cfg))
   \<and> (OutFile cfg \<noteq> [] \<and> ExactBytes cfg > 0 \<and> FileCount cfg = 1
        \<and> InternalHosts cfg > 0 \<and> ExternalHosts cfg > 0
        \<and> 0 < MinDuration cfg \<and> MinDuration cfg \<le> MaxDuration cfg
        \<and> 0 \<le> FlowCount cfg \<and> (FlowCount cfg > 0 \<longrightarrow> PacketsPerFlow cfg > 0)
      \<longrightarrow> Generate_checks cfg = None)"
proof (intro conjI impI)
  assume a: "(OutFile cfg \<noteq> [] \<or> ExactBytes cfg > 0) \<and> FileCount cfg \<noteq> 1"
  then show c: "Generate_checks cfg \<noteq> None"
    by (auto simp: Generate_checks_def)
  then obtain e where "Generate_checks cfg = Some e" by auto
  then show "isl (Generate source cfg)"
    by (simp add: Generate_error_of_checks)
next
  assume "OutFile cfg \<noteq> [] \<and> ExactBytes cfg > 0 \<and> FileCount cfg = 1
        \<and> InternalHosts cfg > 0 \<and> ExternalHosts cfg > 0
        \<and> 0 < MinDuration cfg \<and> MinDuration cfg \<le> MaxDuration cfg
        \<and> 0 \<le> FlowCount cfg \<and> (FlowCount cfg > 0 \<longrightarrow> PacketsPerFlow cfg > 0)"
  then show "Generate_checks cfg = None"
    by (auto simp: Generate_checks_def)
qed

theorem Generate_single_file_checks_witness:
  "OutFile (outfile_exact_config\<lparr> FileCount := 2 \<rparr>) \<noteq> []
   \<and> FileCount (outfile_exact_config\<lparr> FileCount := 2 \<rparr>) \<noteq> 1
   \<and> isl (Generate zero_source (outfile_exact_config\<lparr> FileCount := 2 \<rparr>))
   \<and> OutFile outfile_exact_config \<noteq> [] \<and> ExactBytes outfile_exact_config > 0
   \<and> FileCount outfile_exact_config = 1
   \<and> Generate_checks outfile_exact_config = None"
  using Generate_single_file_checks[of "outfile_exact_config\<lparr> FileCount := 2 \<rparr>" zero_source]
    Generate_single_file_checks[of outfile_exact_config zero_source]
  by (simp add: outfile_exact_config_def)

text \<open>
  Claim C7 as stated fails: the default configuration, with a max-size and no exact size,
  is rejected by \<open>Generate\<close>.
\<close>

theorem Generate_max_size_counterexample:
  "ExactBytes default_config = 0 \<and> MaxSizeBytes default_config > 0
   \<and> Generate zero_source default_config = Inl (Error ''exact-size must be > 0'')"
  by (simp add: default_config_def Generate_def Generate_checks_def)

section \<open>Fixed-flow generation\<close>

lemma index_Inr: "0 \<le> i \<Longrightarrow> i < int (length xs) \<Longrightarrow> index xs i = Inr (xs ! nat i)"
  by (simp add: index_def)

lemma buildFrame_payload_length: "length (Payload (fst (buildFrame r src dst n))) = nat n"
  by (simp add: buildFrame_def rand_Read_def split: prod.splits)

lemma flowPackets_spec:
  assumes ih: "index internal (fst hosts) = Inr internalHost"
    and eh: "index external (fst (snd hosts)) = Inr externalHost"
    and F: "0 < FlowCount cfg" "0 \<le> flowIdx" "flowIdx < FlowCount cfg"
    and N: "FlowCount cfg * PacketsPerFlow cfg < 2 ^ 63"
    and pe: "0 \<le> payloadExtra"
    and n: "n = nat (PacketsPerFlow cfg - p)"
    and p: "0 \<le> p" "p \<le> PacketsPerFlow cfg"
    and idx: "packetIdx = flowIdx * PacketsPerFlow cfg + p"
  shows "\<exists>r' new. flowPackets start usecStep cfg payloadExtra internal external flowIdx hosts p
                     (packetIdx, r, recs)
                   = Inr (flowIdx * PacketsPerFlow cfg + PacketsPerFlow cfg, r', recs @ new)
           \<and> length new = n
           \<and> (\<forall>k < n. flowRecordAt start usecStep payloadExtra (FlowCount cfg * PacketsPerFlow cfg)
                          (packetIdx + int k) (new ! k))"
  using n p idx
proof (induction n arbitrary: p packetIdx r recs)
  case 0
  then have "p = PacketsPerFlow cfg" by simp
  then show ?case using 0 by (subst flowPackets.simps) simp
next
  case (Suc n)
  let ?P = "PacketsPerFlow cfg" and ?F = "FlowCount cfg"
  have lt: "p < ?P" using Suc.prems by simp
  have Ppos: "0 < ?P" using lt Suc.prems by simp
  have FP: "flowIdx * ?P + ?P \<le> ?F * ?P"
  proof -
    have "(flowIdx + 1) * ?P \<le> ?F * ?P" using F Ppos by (intro mult_right_mono) auto
    then show ?thesis by (simp add: algebra_simps)
  qed
  have Fle: "?F \<le> ?F * ?P" using F Ppos by (simp add: mult_le_cancel_left1)
  have Ple: "?P \<le> ?F * ?P" using F Ppos by (simp add: mult_le_cancel_right1)
  have fi0: "0 \<le> flowIdx * ?P" using F Ppos by simp
  have pk: "0 \<le> packetIdx" "packetIdx + 1 < 2 ^ 63"
    using Suc.prems lt FP N fi0 by linarith+
  have w1: "wrap64 (packetIdx + 1) = packetIdx + 1" using pk by (intro wrap64_id) linarith+
  have wF: "wrap64 (?F - 1) = ?F - 1" using F Fle N by (intro wrap64_id) linarith+
  have wP: "wrap64 (?P - 1) = ?P - 1" using Ppos Ple N by (intro wrap64_id) linarith+
  define payloadLen where
    "payloadLen = (if (flowIdx = ?F - 1 \<and> p = ?P - 1) \<and> payloadExtra > 0 then payloadExtra else 0)"
  define src where "src = (if snd (snd hosts) then internalHost else externalHost)"
  define dst where "dst = (if snd (snd hosts) then externalHost else internalHost)"
  define fr where "fr = buildFrame r src dst payloadLen"
  define rc where "rc = \<lparr> Timestamp = start + wrap64 (wrap64 (packetIdx * usecStep) * 1000), Frame = fst fr \<rparr>"
  have cp: "createPacketForHosts r internalHost externalHost (snd (snd hosts)) m = Inr (buildFrame r src dst m)" for m
    by (simp add: createPacketForHosts_def src_def dst_def)
  have step: "flowPackets start usecStep cfg payloadExtra internal external flowIdx hosts p (packetIdx, r, recs)
        = flowPackets start usecStep cfg payloadExtra internal external flowIdx hosts (p + 1)
            (packetIdx + 1, snd fr, recs @ [rc])"
    apply (subst flowPackets.simps)
    unfolding rc_def fr_def payloadLen_def
    using lt by (simp add: Let_def wF wP w1 ih eh cp case_prod_beta)
  have "\<exists>r' new. flowPackets start usecStep cfg payloadExtra internal external flowIdx hosts (p + 1)
                     (packetIdx + 1, snd fr, recs @ [rc])
                   = Inr (flowIdx * ?P + ?P, r', (recs @ [rc]) @ new)
           \<and> length new = n
           \<and> (\<forall>k < n. flowRecordAt start usecStep payloadExtra (?F * ?P) (packetIdx + 1 + int k) (new ! k))"
    using Suc.prems lt by (intro Suc.IH) auto
  then obtain r' new where res: "flowPackets start usecStep cfg payloadExtra internal external flowIdx hosts (p + 1)
                     (packetIdx + 1, snd fr, recs @ [rc]) = Inr (flowIdx * ?P + ?P, r', (recs @ [rc]) @ new)"
    and len: "length new = n"
    and rel: "\<forall>k < n. flowRecordAt start usecStep payloadExtra (?F * ?P) (packetIdx + 1 + int k) (new ! k)"
    by blast
  have last_iff: "(flowIdx = ?F - 1 \<and> p = ?P - 1) \<longleftrightarrow> packetIdx = ?F * ?P - 1"
  proof
    assume a: "flowIdx = ?F - 1 \<and> p = ?P - 1"
    have "(?F - 1) * ?P = ?F * ?P - ?P" by (simp add: algebra_simps)
    then show "packetIdx = ?F * ?P - 1" using a Suc.prems(4) by simp
  next
    assume e: "packetIdx = ?F * ?P - 1"
    have "flowIdx * ?P + ?P \<le> ?F * ?P" by (rule FP)
    have "\<not> flowIdx + 1 < ?F"
    proof
      assume "flowIdx + 1 < ?F"
      then have "(flowIdx + 2) * ?P \<le> ?F * ?P" using Ppos by (intro mult_right_mono) auto
      then have "flowIdx * ?P + 2 * ?P \<le> ?F * ?P" by (simp add: algebra_simps)
      then show False using e Suc.prems lt by linarith
    qed
    then have f: "flowIdx = ?F - 1" using F by linarith
    have "(?F - 1) * ?P = ?F * ?P - ?P" by (simp add: algebra_simps)
    then have "flowIdx * ?P = ?F * ?P - ?P" unfolding f .
    then have "p = ?P - 1" using e Suc.prems by linarith
    with f show "flowIdx = ?F - 1 \<and> p = ?P - 1" by simp
  qed
  have rc_ok: "flowRecordAt start usecStep payloadExtra (?F * ?P) packetIdx rc"
    using pe by (auto simp: flowRecordAt_def rc_def fr_def buildFrame_payload_length payloadLen_def last_iff)
  show ?case
  proof (intro exI[of _ r'] exI[of _ "rc # new"] conjI allI impI)
    show "flowPackets start usecStep cfg payloadExtra internal external flowIdx hosts p (packetIdx, r, recs)
            = Inr (flowIdx * ?P + ?P, r', recs @ rc # new)"
      using step res by simp
    show "length (rc # new) = Suc n" using len by simp
    fix k assume "k < Suc n"
    then show "flowRecordAt start usecStep payloadExtra (?F * ?P) (packetIdx + int k) ((rc # new) ! k)"
      using rc_ok rel by (cases k) (auto simp: add.assoc)
  qed
qed


lemma flowLoop_spec:
  assumes IE: "0 < int (length internal)" "0 < int (length external)"
      "2 * (int (length internal) * int (length external)) \<le> 2 ^ 63"
    and cap: "FlowCount cfg \<le> 2 * (int (length internal) * int (length external))"
    and F: "0 < FlowCount cfg" and P: "0 < PacketsPerFlow cfg"
    and N: "FlowCount cfg * PacketsPerFlow cfg < 2 ^ 63"
    and pe: "0 \<le> payloadExtra"
    and n: "n = nat (FlowCount cfg - flowIdx)"
    and fi: "0 \<le> flowIdx" "flowIdx \<le> FlowCount cfg"
    and idx: "packetIdx = flowIdx * PacketsPerFlow cfg"
  shows "\<exists>packetIdx' r' new.
           flowLoop start usecStep cfg payloadExtra internal external flowIdx (packetIdx, r, recs)
             = Inr (packetIdx', r', recs @ new)
           \<and> length new = n * nat (PacketsPerFlow cfg)
           \<and> (\<forall>k < n * nat (PacketsPerFlow cfg).
                 flowRecordAt start usecStep payloadExtra (FlowCount cfg * PacketsPerFlow cfg)
                   (packetIdx + int k) (new ! k))"
  using n fi idx
proof (induction n arbitrary: flowIdx packetIdx r recs)
  case 0
  then have "flowIdx = FlowCount cfg" by simp
  then show ?case by (subst flowLoop.simps) simp
next
  case (Suc n)
  let ?P = "PacketsPerFlow cfg" and ?F = "FlowCount cfg"
  let ?I = "int (length internal)" and ?E = "int (length external)"
  have lt: "flowIdx < ?F" using Suc.prems by simp
  have "flowIdx < 2 * (?I * ?E)" using lt cap by linarith
  then have "flowIndexToHosts flowIdx ?I ?E \<in> Inr ` ({0..<?I} \<times> {0..<?E} \<times> UNIV)"
    using IE Suc.prems(2) by (intro flowIndexToHosts_range) auto
  then obtain a b d where h: "flowIndexToHosts flowIdx ?I ?E = Inr (a, b, d)"
    and ab: "0 \<le> a" "a < ?I" "0 \<le> b" "b < ?E" by auto
  have ih: "index internal (fst (a, b, d)) = Inr (internal ! nat a)"
    and eh: "index external (fst (snd (a, b, d))) = Inr (external ! nat b)"
    using ab by (simp_all add: index_Inr)
  obtain r1 new1 where
    in1: "flowPackets start usecStep cfg payloadExtra internal external flowIdx (a, b, d) 0
            (packetIdx, r, recs) = Inr (flowIdx * ?P + ?P, r1, recs @ new1)"
    and len1: "length new1 = nat ?P"
    and rel1: "\<forall>k < nat ?P. flowRecordAt start usecStep payloadExtra (?F * ?P) (packetIdx + int k) (new1 ! k)"
    using flowPackets_spec[OF ih eh F Suc.prems(2) lt N pe, of "nat ?P" 0 packetIdx start usecStep r recs]
      P Suc.prems(4)
    by auto
  have step: "flowLoop start usecStep cfg payloadExtra internal external flowIdx (packetIdx, r, recs)
      = flowLoop start usecStep cfg payloadExtra internal external (flowIdx + 1)
          (flowIdx * ?P + ?P, r1, recs @ new1)"
    by (subst flowLoop.simps) (simp add: lt h in1)
  have nxt: "flowIdx * ?P + ?P = (flowIdx + 1) * ?P" by (simp add: algebra_simps)
  have "\<exists>pi2 r2 new2.
          flowLoop start usecStep cfg payloadExtra internal external (flowIdx + 1)
            (flowIdx * ?P + ?P, r1, recs @ new1) = Inr (pi2, r2, (recs @ new1) @ new2)
          \<and> length new2 = n * nat ?P
          \<and> (\<forall>k < n * nat ?P. flowRecordAt start usecStep payloadExtra (?F * ?P)
                 (flowIdx * ?P + ?P + int k) (new2 ! k))"
    using Suc.prems lt nxt by (intro Suc.IH) auto
  then obtain pi2 r2 new2 where
    in2: "flowLoop start usecStep cfg payloadExtra internal external (flowIdx + 1)
            (flowIdx * ?P + ?P, r1, recs @ new1) = Inr (pi2, r2, (recs @ new1) @ new2)"
    and len2: "length new2 = n * nat ?P"
    and rel2: "\<forall>k < n * nat ?P. flowRecordAt start usecStep payloadExtra (?F * ?P)
                 (flowIdx * ?P + ?P + int k) (new2 ! k)"
    by blast
  show ?case
  proof (intro exI[of _ pi2] exI[of _ r2] exI[of _ "new1 @ new2"] conjI allI impI)
    show "flowLoop start usecStep cfg payloadExtra internal external flowIdx (packetIdx, r, recs)
            = Inr (pi2, r2, recs @ new1 @ new2)"
      using step in2 by simp
    show "length (new1 @ new2) = Suc n * nat ?P" using len1 len2 by simp
    fix k assume k: "k < Suc n * nat ?P"
    show "flowRecordAt start usecStep payloadExtra (?F * ?P) (packetIdx + int k) ((new1 @ new2) ! k)"
    proof (cases "k < nat ?P")
      case True
      then show ?thesis using rel1 len1 by (simp add: nth_append)
    next
      case False
      then have k2: "k - nat ?P < n * nat ?P" using k by simp
      have "int (k - nat ?P) = int k - ?P" using False P by simp
      then have e: "flowIdx * ?P + ?P + int (k - nat ?P) = packetIdx + int k"
        using Suc.prems(4) by simp
      have "flowRecordAt start usecStep payloadExtra (?F * ?P)
              (flowIdx * ?P + ?P + int (k - nat ?P)) (new2 ! (k - nat ?P))"
        using rel2 k2 by blast
      then have "flowRecordAt start usecStep payloadExtra (?F * ?P) (packetIdx + int k)
              (new2 ! (k - nat ?P))"
        unfolding e .
      then show ?thesis using False len1 by (simp add: nth_append)
    qed
  qed
qed

lemma sum_list_all_but_last:
  fixes g :: "'a \<Rightarrow> int"
  assumes "xs \<noteq> []" "\<forall>k < length xs - 1. g (xs ! k) = c"
  shows "sum_list (map g xs) = c * (int (length xs) - 1) + g (last xs)"
proof -
  have xs: "xs = butlast xs @ [last xs]" using assms by simp
  have "\<forall>x \<in> set (butlast xs). g x = c"
  proof
    fix x assume "x \<in> set (butlast xs)"
    then obtain k where "k < length (butlast xs)" "butlast xs ! k = x"
      by (auto simp: in_set_conv_nth)
    then show "g x = c" using assms(2) by (auto simp: nth_butlast)
  qed
  then have "map g (butlast xs) = map (\<lambda>x. c) (butlast xs)"
    by (intro map_cong) auto
  then have "map g (butlast xs) = replicate (length (butlast xs)) c"
    by (simp only: map_replicate_const)
  then have "sum_list (map g (butlast xs)) = c * int (length xs - 1)"
    by (simp add: sum_list_replicate)
  moreover have "sum_list (map g xs) = sum_list (map g (butlast xs)) + g (last xs)"
    by (subst xs) simp
  moreover have "int (length xs - 1) = int (length xs) - 1" using assms(1)
    by (cases xs) simp_all
  ultimately show ?thesis by simp
qed

lemma createPcapFileFlows_records:
  assumes F: "0 < FlowCount cfg" and P: "0 < PacketsPerFlow cfg"
    and capInt: "2 * (int (length internal) * int (length external)) < 2 ^ 63"
    and cap: "FlowCount cfg \<le> 2 * (int (length internal) * int (length external))"
    and base: "24 + 78 * (FlowCount cfg * PacketsPerFlow cfg) \<le> exactBytes"
    and ex: "exactBytes < 2 ^ 63"
  shows "\<exists>recs r'.
           createPcapFileFlows start duration cfg exactBytes randSrc internal external = Inr (recs, r')
         \<and> int (length recs) = FlowCount cfg * PacketsPerFlow cfg
         \<and> (\<forall>k < length recs.
               flowRecordAt start (flowUsecStep duration (FlowCount cfg * PacketsPerFlow cfg))
                 (exactBytes - (24 + 78 * (FlowCount cfg * PacketsPerFlow cfg)))
                 (FlowCount cfg * PacketsPerFlow cfg) (int k) (recs ! k))"
proof -
  let ?P = "PacketsPerFlow cfg" and ?F = "FlowCount cfg"
  let ?I = "int (length internal)" and ?E = "int (length external)"
  let ?N = "?F * ?P"
  let ?pe = "exactBytes - (24 + 78 * ?N)"
  have Npos: "0 < ?N" using F P by simp
  have Nlt: "?N < 2 ^ 63" using base ex Npos by linarith
  have IEpos: "0 < ?I * ?E" using F cap by linarith
  then have Ipos: "0 < ?I" and Epos: "0 < ?E"
    by (auto simp: zero_less_mult_iff)
  have capw: "wrap64 (2 * ?I * ?E) = 2 * (?I * ?E)"
  proof -
    have e: "2 * ?I * ?E = 2 * (?I * ?E)" by simp
    have "wrap64 (2 * (?I * ?E)) = 2 * (?I * ?E)"
      using capInt IEpos by (intro wrap64_id) linarith+
    then show ?thesis unfolding e .
  qed
  have Nw: "wrap64 ?N = ?N" using Npos Nlt by (intro wrap64_id) linarith+
  have N78: "wrap64 (?N * 78) = 78 * ?N"
  proof -
    have "wrap64 (78 * ?N) = 78 * ?N" using Npos base ex by (intro wrap64_id) linarith+
    then show ?thesis by (simp add: mult.commute)
  qed
  have basew: "wrap64 (24 + 78 * ?N) = 24 + 78 * ?N" using Npos base ex by (intro wrap64_id) linarith+
  have pe0: "0 \<le> ?pe" using base by simp
  have pew: "wrap64 ?pe = ?pe" using pe0 ex Npos by (intro wrap64_id) linarith+
  have expos: "0 < exactBytes" using base Npos by linarith
  have unfold: "createPcapFileFlows start duration cfg exactBytes randSrc internal external =
      (case flowLoop start (flowUsecStep duration ?N) cfg ?pe internal external 0 (0, randSrc, []) of
         Inl e \<Rightarrow> Inl e
       | Inr (packetIdx, r', recs) \<Rightarrow> Inr (recs, r'))"
    unfolding createPcapFileFlows_def Let_def capw Nw N78 basew
    using cap expos base F P pew by simp
  have capLe: "2 * (?I * ?E) \<le> 2 ^ 63" using capInt by simp
  obtain pi' r' new where
    fl: "flowLoop start (flowUsecStep duration ?N) cfg ?pe internal external 0 (0, randSrc, [])
           = Inr (pi', r', [] @ new)"
    and len: "length new = nat ?F * nat ?P"
    and rel: "\<forall>k < nat ?F * nat ?P.
                flowRecordAt start (flowUsecStep duration ?N) ?pe ?N (0 + int k) (new ! k)"
    using flowLoop_spec[OF Ipos Epos capLe cap F P Nlt pe0, of "nat ?F" 0 0 start
            "flowUsecStep duration ?N" randSrc "[]"] F
    by auto
  have lenN: "int (length new) = ?N" using len F P by (simp add: nat_mult_distrib)
  show ?thesis
  proof (intro exI[of _ new] exI[of _ r'] conjI allI impI)
    show "createPcapFileFlows start duration cfg exactBytes randSrc internal external = Inr (new, r')"
      using unfold fl by simp
    show "int (length new) = ?N" by (rule lenN)
    fix k assume "k < length new"
    then show "flowRecordAt start (flowUsecStep duration ?N) ?pe ?N (int k) (new ! k)"
      using rel len by simp
  qed
qed

lemma fileSize_flow_records:
  assumes len: "int (length recs) = N" and N: "0 < N" and pe: "0 \<le> pe"
    and rel: "\<forall>k < length recs. flowRecordAt start us pe N (int k) (recs ! k)"
  shows "fileSize recs = 24 + 78 * N + pe"
    and "\<forall>k < length recs - 1. Payload (Frame (recs ! k)) = []"
    and "int (length (Payload (Frame (last recs)))) = pe"
proof -
  have ne: "recs \<noteq> []" using len N by auto
  show a: "\<forall>k < length recs - 1. Payload (Frame (recs ! k)) = []"
  proof (intro allI impI)
    fix k assume k: "k < length recs - 1"
    then have "int k \<noteq> N - 1" using len by linarith
    moreover have "flowRecordAt start us pe N (int k) (recs ! k)" using rel k by simp
    ultimately show "Payload (Frame (recs ! k)) = []" by (simp add: flowRecordAt_def)
  qed
  have "flowRecordAt start us pe N (int (length recs - 1)) (recs ! (length recs - 1))"
    using rel ne by simp
  moreover have "int (length recs - 1) = N - 1" using len ne by (cases recs) auto
  ultimately show b: "int (length (Payload (Frame (last recs)))) = pe"
    using pe ne by (auto simp: flowRecordAt_def last_conv_nth)
  have "\<forall>k < length recs - 1. (16 + frameLen (Frame (recs ! k))) = 78"
    using a by (simp add: frameLen_def)
  then have "sum_list (map (\<lambda>rc. 16 + frameLen (Frame rc)) recs)
               = 78 * (int (length recs) - 1) + (16 + frameLen (Frame (last recs)))"
    using ne by (intro sum_list_all_but_last) auto
  then show "fileSize recs = 24 + 78 * N + pe"
    using b len by (simp add: fileSize_def frameLen_def)
qed

text \<open>
  Claim C1. In fixed-flow generation with \<open>flowCount > 0\<close> and \<open>packetsPerFlow > 0\<close>, when the
  flow count is within the capacity \<open>2 * |internal| * |external|\<close> (a Go integer) and the
  exact target size (a Go integer) is at least the base size, 24 bytes of file header plus 78
  bytes per packet, \<open>createPcapFileFlows\<close> returns without error, has written exactly
  \<open>flowCount * packetsPerFlow\<close> packets, the byte length of the file equals the exact target
  size, and all padding is the payload of the last packet: every earlier packet has an
  empty payload.
\<close>

theorem createPcapFileFlows_exact_size:
  assumes "0 < FlowCount cfg" and "0 < PacketsPerFlow cfg"
    and "2 * (int (length internal) * int (length external)) < 2 ^ 63"
    and "FlowCount cfg \<le> 2 * (int (length internal) * int (length external))"
    and "24 + 78 * (FlowCount cfg * PacketsPerFlow cfg) \<le> exactBytes"
    and "exactBytes < 2 ^ 63"
  shows "\<exists>recs r'.
           createPcapFileFlows start duration cfg exactBytes randSrc internal external = Inr (recs, r')
         \<and> int (length recs) = FlowCount cfg * PacketsPerFlow cfg
         \<and> fileSize recs = exactBytes
         \<and> (\<forall>k < length recs - 1. Payload (Frame (recs ! k)) = [])
         \<and> int (length (Payload (Frame (last recs))))
             = exactBytes - (24 + 78 * (FlowCount cfg * PacketsPerFlow cfg))"
proof -
  let ?N = "FlowCount cfg * PacketsPerFlow cfg"
  let ?pe = "exactBytes - (24 + 78 * ?N)"
  obtain recs r' where
    res: "createPcapFileFlows start duration cfg exactBytes randSrc internal external = Inr (recs, r')"
    and len: "int (length recs) = ?N"
    and rel: "\<forall>k < length recs. flowRecordAt start (flowUsecStep duration ?N) ?pe ?N (int k) (recs ! k)"
    using createPcapFileFlows_records[OF assms] by blast
  have N: "0 < ?N" using assms(1,2) by simp
  have pe: "0 \<le> ?pe" using assms(5) by simp
  note fs = fileSize_flow_records[OF len N pe rel]
  have "fileSize recs = exactBytes" using fs(1) by simp
  then show ?thesis using res len fs(2,3) by blast
qed

theorem createPcapFileFlows_exact_size_witness:
  "0 < FlowCount flow_scenario_config \<and> 0 < PacketsPerFlow flow_scenario_config
   \<and> 2 * (int (length ten_hosts) * int (length ten_hosts)) < (2::int) ^ 63
   \<and> FlowCount flow_scenario_config \<le> 2 * (int (length ten_hosts) * int (length ten_hosts))
   \<and> 24 + 78 * (FlowCount flow_scenario_config * PacketsPerFlow flow_scenario_config) \<le> 3930
   \<and> (3930::int) < 2 ^ 63
   \<and> (\<exists>recs r'.
         createPcapFileFlows 0 60000000000 flow_scenario_config 3930 (\<lambda>k. 0) ten_hosts ten_hosts
           = Inr (recs, r')
         \<and> int (length recs) = 50 \<and> fileSize recs = 3930
         \<and> (\<forall>k < length recs - 1. Payload (Frame (recs ! k)) = [])
         \<and> int (length (Payload (Frame (last recs)))) = 6)"
proof -
  have h: "0 < FlowCount flow_scenario_config" "0 < PacketsPerFlow flow_scenario_config"
    "2 * (int (length ten_hosts) * int (length ten_hosts)) < (2::int) ^ 63"
    "FlowCount flow_scenario_config \<le> 2 * (int (length ten_hosts) * int (length ten_hosts))"
    "24 + 78 * (FlowCount flow_scenario_config * PacketsPerFlow flow_scenario_config) \<le> 3930"
    "(3930::int) < 2 ^ 63"
    by (simp_all add: flow_scenario_config_def ten_hosts_def)
  have v: "FlowCount flow_scenario_config * PacketsPerFlow flow_scenario_config = 50"
    by (simp add: flow_scenario_config_def)
  show ?thesis
    using h createPcapFileFlows_exact_size[OF h, of 0 60000000000 "\<lambda>k. 0"]
    unfolding v by simp
qed

section \<open>Random-pair generation\<close>

lemma Intn_range:
  assumes "0 < n"
  shows "\<exists>v r'. Intn r n = Inr (v, r') \<and> 0 \<le> v \<and> v < n"
  using assms by (simp add: Intn_def)

lemma createPacket_Inr:
  assumes "internal \<noteq> []" "external \<noteq> []"
  shows "\<exists>f r'. createPacket r internal external n = Inr (f, r') \<and> length (Payload f) = nat n"
proof -
  obtain d r1 where d: "Intn r 2 = Inr (d, r1)" using Intn_range[of 2 r] by auto
  have li: "0 < int (length internal)" and le: "0 < int (length external)" using assms by simp_all
  show ?thesis
  proof (cases "d = 1")
    case True
    obtain i r2 where i: "Intn r1 (int (length internal)) = Inr (i, r2)"
      using Intn_range[OF li, of r1] by auto
    obtain j r3 where j: "Intn r2 (int (length external)) = Inr (j, r3)"
      using Intn_range[OF le, of r2] by auto
    have "createPacket r internal external n
            = Inr (buildFrame r3 (internal ! nat i) (external ! nat j) n)"
      by (simp add: createPacket_def d True i j)
    then show ?thesis
      using buildFrame_payload_length[of r3 "internal ! nat i" "external ! nat j" n]
      by (cases "buildFrame r3 (internal ! nat i) (external ! nat j) n") auto
  next
    case False
    obtain j r2 where j: "Intn r1 (int (length external)) = Inr (j, r2)"
      using Intn_range[OF le, of r1] by auto
    obtain i r3 where i: "Intn r2 (int (length internal)) = Inr (i, r3)"
      using Intn_range[OF li, of r2] by auto
    have "createPacket r internal external n
            = Inr (buildFrame r3 (external ! nat j) (internal ! nat i) n)"
      by (simp add: createPacket_def d False i j)
    then show ?thesis
      using buildFrame_payload_length[of r3 "external ! nat j" "internal ! nat i" n]
      by (cases "buildFrame r3 (external ! nat j) (internal ! nat i) n") auto
  qed
qed

lemma interPacketGap_bounds:
  assumes "1 \<le> R" "endSec - S \<le> R" "- (2 ^ 63) \<le> endSec - S" "endSec - S < 2 ^ 63" "0 < count - i"
  shows "1 \<le> interPacketGap endSec S count i" "interPacketGap endSec S count i \<le> R * 1000000"
proof -
  have w: "wrap64 (endSec - S) = endSec - S" using assms(3,4) by (rule wrap64_id)
  define remaining where "remaining = (if endSec - S \<le> 0 then 1 else endSec - S)"
  have rem: "1 \<le> remaining" "remaining \<le> R" using assms by (auto simp: remaining_def)
  have "(remaining * 1000000) div (count - i) \<le> remaining * 1000000"
    using zdiv_mono2[of "remaining * 1000000" 1 "count - i"] rem assms(5) by simp
  then have le: "(remaining * 1000000) div (count - i) \<le> R * 1000000" using rem by linarith
  have e: "interPacketGap endSec S count i =
          (if (remaining * 1000000) div (count - i) < 1 then 1
           else (remaining * 1000000) div (count - i))"
    by (simp add: interPacketGap_def Let_def w remaining_def)
  show "1 \<le> interPacketGap endSec S count i" unfolding e by simp
  show "interPacketGap endSec S count i \<le> R * 1000000" unfolding e using le assms(1) by simp
qed

lemma advanceClock_seconds:
  assumes "- (2 ^ 63) \<le> S" "S + 1 < 2 ^ 63"
  shows "\<exists>S2 off2. advanceClock S off gap = (S2, off2) \<and> S \<le> S2 \<and> S2 \<le> S + 1"
proof -
  have w2: "wrap64 (S + 1) = S + 1" using assms by (intro wrap64_id) linarith+
  show ?thesis by (simp add: advanceClock_def Let_def w2)
qed

lemma advanceClock_time:
  assumes "0 \<le> off" "0 \<le> gap" "off + gap < 2 ^ 63" "- (2 ^ 63) \<le> S" "S + 1 < 2 ^ 63"
    and "advanceClock S off gap = (S2, off2)"
  shows "0 \<le> off2" "off2 \<le> off + gap"
    "S2 * 1000000000 + off2 * 1000 = S * 1000000000 + (off + gap) * 1000"
proof -
  have w1: "wrap64 (off + gap) = off + gap" using assms by (intro wrap64_id) linarith+
  have w2: "wrap64 (S + 1) = S + 1" using assms by (intro wrap64_id) linarith+
  have "0 \<le> off2 \<and> off2 \<le> off + gap
        \<and> S2 * 1000000000 + off2 * 1000 = S * 1000000000 + (off + gap) * 1000"
  proof (cases "off + gap \<ge> 1000000")
    case True
    then have w3: "wrap64 (off + gap - 1000000) = off + gap - 1000000"
      using assms by (intro wrap64_id) linarith+
    show ?thesis using True assms(6) by (auto simp: advanceClock_def Let_def w1 w2 w3)
  next
    case False
    then show ?thesis using assms by (auto simp: advanceClock_def Let_def w1)
  qed
  then show "0 \<le> off2" "off2 \<le> off + gap"
    "S2 * 1000000000 + off2 * 1000 = S * 1000000000 + (off + gap) * 1000"
    by simp_all
qed

lemma randomPackets_spec:
  assumes pools: "internal \<noteq> []" "external \<noteq> []"
    and R: "R = max 1 (endSec - S0)"
    and RB: "R * 1000000 < 2 ^ 61"
    and S0: "- (2 ^ 61) \<le> S0" "S0 \<le> 2 ^ 61"
    and eS: "- (2 ^ 62) \<le> endSec" "endSec \<le> 2 ^ 62"
    and cnt_small: "count < 2 ^ 61"
    and lim: "limit \<le> count"
    and n: "n = nat (limit - i)"
    and i: "0 \<le> i" "i \<le> limit"
    and S: "S0 \<le> S" "S \<le> S0 + i"
  shows "\<exists>S' off' r' new.
           randomPackets limit count remainder endSec internal external i (S, off, r, recs)
             = Inr (S', off', r', recs @ new)
           \<and> length new = n
           \<and> (\<forall>k < n. int (length (Payload (Frame (new ! k))))
                  = (if i + int k = wrap64 (count - 1) \<and> remainder > 0 then remainder else 0))
           \<and> (count * (R * 1000000) * 1000 < 2 ^ 63 \<longrightarrow> 0 \<le> off \<longrightarrow> off \<le> i * (R * 1000000)
                \<longrightarrow> sorted (map Timestamp new)
                    \<and> (\<forall>rc \<in> set new. S * 1000000000 + off * 1000 \<le> Timestamp rc))"
  using n i S
proof (induction n arbitrary: i S off r recs)
  case 0
  then have "i = limit" by simp
  then show ?case by (subst randomPackets.simps) simp
next
  case (Suc n)
  let ?B = "R * 1000000"
  have lt: "i < limit" using Suc.prems by simp
  have Rpos: "1 \<le> R" using R by simp
  have cpos: "0 < count - i" using lt lim by simp
  have cnt: "i + 1 \<le> count" using lt lim by simp
  have Bpos: "0 < ?B" using Rpos by simp
  have pw: "(2::int) ^ 63 = 4 * 2 ^ 61" "(2::int) ^ 62 = 2 * 2 ^ 61" "(0::int) < 2 ^ 61"
    by simp_all
  define payloadLen where
    "payloadLen = (if i = wrap64 (count - 1) \<and> remainder > 0 then remainder else 0)"
  obtain f r1 where cp: "createPacket r internal external payloadLen = Inr (f, r1)"
    and fl: "length (Payload f) = nat payloadLen"
    using createPacket_Inr[OF pools] by blast
  define rc where "rc = \<lparr> Timestamp = S * 1000000000 + wrap64 (off * 1000), Frame = f \<rparr>"
  have Sb: "- (2 ^ 61) \<le> S" "S \<le> 2 ^ 61 + 2 ^ 61"
    using Suc.prems S0 cnt_small lt lim pw by linarith+
  define ip where "ip = interPacketGap endSec S count i"
  have eSR: "endSec - S \<le> R" using R Suc.prems(4) by linarith
  have eSb: "- (2 ^ 63) \<le> endSec - S" "endSec - S < 2 ^ 63" using Sb eS pw by linarith+
  have ipb: "1 \<le> ip" "ip \<le> ?B"
    unfolding ip_def using interPacketGap_bounds[OF Rpos eSR eSb cpos] by simp_all
  have w_ip: "wrap64 (ip + 1) = ip + 1" using ipb RB pw by (intro wrap64_id) linarith+
  obtain gap r2 where g: "Intn r1 (ip + 1) = Inr (gap, r2)" and gb: "0 \<le> gap" "gap < ip + 1"
    using Intn_range[of "ip + 1" r1] ipb by auto
  have Sr: "- (2 ^ 63) \<le> S" "S + 1 < 2 ^ 63" using Sb pw by linarith+
  obtain S2 off2 where ac: "advanceClock S off gap = (S2, off2)"
    and S2: "S \<le> S2" "S2 \<le> S + 1"
    using advanceClock_seconds[OF Sr, of off gap] by blast
  have step: "randomPackets limit count remainder endSec internal external i (S, off, r, recs)
       = randomPackets limit count remainder endSec internal external (i + 1)
           (S2, off2, r2, recs @ [rc])"
    apply (subst randomPackets.simps)
    unfolding rc_def
    using lt cp g ac
    by (simp add: Let_def payloadLen_def ip_def w_ip[unfolded ip_def])
  have S2b: "S0 \<le> S2" "S2 \<le> S0 + (i + 1)" using Suc.prems(4,5) S2 by linarith+
  have "\<exists>S' off' r' new.
           randomPackets limit count remainder endSec internal external (i + 1) (S2, off2, r2, recs @ [rc])
             = Inr (S', off', r', (recs @ [rc]) @ new)
           \<and> length new = n
           \<and> (\<forall>k < n. int (length (Payload (Frame (new ! k))))
                  = (if i + 1 + int k = wrap64 (count - 1) \<and> remainder > 0 then remainder else 0))
           \<and> (count * (R * 1000000) * 1000 < 2 ^ 63 \<longrightarrow> 0 \<le> off2 \<longrightarrow> off2 \<le> (i + 1) * (R * 1000000)
                \<longrightarrow> sorted (map Timestamp new)
                    \<and> (\<forall>rc \<in> set new. S2 * 1000000000 + off2 * 1000 \<le> Timestamp rc))"
    using Suc.prems(1) lt S2b Suc.prems(2) by (intro Suc.IH) auto
  then obtain S' off' r' new where
    res: "randomPackets limit count remainder endSec internal external (i + 1) (S2, off2, r2, recs @ [rc])
             = Inr (S', off', r', (recs @ [rc]) @ new)"
    and len: "length new = n"
    and pl: "\<forall>k < n. int (length (Payload (Frame (new ! k))))
                  = (if i + 1 + int k = wrap64 (count - 1) \<and> remainder > 0 then remainder else 0)"
    and tl: "count * (R * 1000000) * 1000 < 2 ^ 63 \<longrightarrow> 0 \<le> off2 \<longrightarrow> off2 \<le> (i + 1) * (R * 1000000)
                \<longrightarrow> sorted (map Timestamp new)
                    \<and> (\<forall>rc \<in> set new. S2 * 1000000000 + off2 * 1000 \<le> Timestamp rc)"
    by blast
  have rcpl: "int (length (Payload (Frame rc)))
                = (if i = wrap64 (count - 1) \<and> remainder > 0 then remainder else 0)"
    using fl by (auto simp: rc_def payloadLen_def)
  have A: "randomPackets limit count remainder endSec internal external i (S, off, r, recs)
            = Inr (S', off', r', recs @ (rc # new))"
    using step res by simp
  have B: "length (rc # new) = Suc n" using len by simp
  have E: "\<forall>k < Suc n. int (length (Payload (Frame ((rc # new) ! k))))
                 = (if i + int k = wrap64 (count - 1) \<and> remainder > 0 then remainder else 0)"
  proof (intro allI impI)
    fix k assume "k < Suc n"
    then show "int (length (Payload (Frame ((rc # new) ! k))))
                 = (if i + int k = wrap64 (count - 1) \<and> remainder > 0 then remainder else 0)"
      using rcpl pl by (cases k) (auto simp: add.assoc)
  qed
  have CD: "sorted (map Timestamp (rc # new))
            \<and> (\<forall>x \<in> set (rc # new). S * 1000000000 + off * 1000 \<le> Timestamp x)"
    if cB: "count * ?B * 1000 < 2 ^ 63" and o0: "0 \<le> off" and o1: "off \<le> i * ?B"
  proof -
    have iB: "(i + 1) * ?B \<le> count * ?B" using cnt Bpos by (intro mult_right_mono) auto
    have iB1: "(i + 1) * ?B = i * ?B + ?B" by (simp add: algebra_simps)
    have cB0: "0 \<le> count * ?B" using cnt Suc.prems(2) Bpos by simp
    have offb: "off * 1000 < 2 ^ 63" using o1 iB iB1 Bpos cB by linarith
    have w_off: "wrap64 (off * 1000) = off * 1000" using o0 offb by (intro wrap64_id) linarith+
    have og: "off + gap \<le> (i + 1) * ?B" using o1 gb ipb iB1 by linarith
    then have ogs: "off + gap < 2 ^ 63" using iB cB cB0 by linarith
    note t = advanceClock_time[OF o0 gb(1) ogs Sr ac]
    have off2b: "off2 \<le> (i + 1) * ?B" using t(2) og by linarith
    have mono: "S * 1000000000 + off * 1000 \<le> S2 * 1000000000 + off2 * 1000"
      using gb t(3) by simp
    have srt: "sorted (map Timestamp new)"
      and lb: "\<forall>rc \<in> set new. S2 * 1000000000 + off2 * 1000 \<le> Timestamp rc"
      using tl cB t(1) off2b by blast+
    show ?thesis using srt lb mono by (auto simp: rc_def w_off)
  qed
  show ?case using A B CD E by blast
qed


lemma seconds_bounds:
  assumes "- (2 ^ 63) \<le> d" "d < 2 ^ 63"
  shows "- (2 ^ 34) \<le> go_div d 1000000000" "go_div d 1000000000 \<le> 2 ^ 34"
proof -
  have "- (2 ^ 34) \<le> go_div d 1000000000 \<and> go_div d 1000000000 \<le> 2 ^ 34"
  proof (cases "0 \<le> d")
    case True
    then have e: "go_div d 1000000000 = d div 1000000000" using assms by (intro go_div_nonneg) auto
    have "d div 1000000000 \<le> (2 ^ 63) div 1000000000" using assms by (intro zdiv_mono1) auto
    moreover have "0 \<le> d div 1000000000" using True by (simp add: pos_imp_zdiv_nonneg_iff)
    ultimately show ?thesis unfolding e by simp
  next
    case False
    then have a: "\<bar>d\<bar> = - d" "sgn d = - 1" by (simp_all add: sgn_if)
    have "(- d) div 1000000000 \<le> (2 ^ 63) div 1000000000" using assms by (intro zdiv_mono1) auto
    moreover have "0 \<le> (- d) div 1000000000" using False by (simp add: pos_imp_zdiv_nonneg_iff)
    moreover have "go_div d 1000000000 = wrap64 (- ((- d) div 1000000000))"
      by (simp add: go_div_def a)
    ultimately show ?thesis by (simp add: wrap64_def)
  qed
  then show "- (2 ^ 34) \<le> go_div d 1000000000" "go_div d 1000000000 \<le> 2 ^ 34" by simp_all
qed

lemma createPcapFile_spec:
  assumes pools: "internal \<noteq> []" "external \<noteq> []"
    and st: "- (2 ^ 62) \<le> start" "start < 2 ^ 62"
    and du: "- (2 ^ 63) \<le> duration" "duration < 2 ^ 63"
    and sz: "sz = (if exactBytes > 0 then exactBytes else maxSize)" "102 \<le> sz" "sz < 2 ^ 63"
    and cn: "count = (sz - 24) div 78"
  shows "\<exists>recs r'.
           createPcapFile start duration maxSize exactBytes randSrc internal external = Inr (recs, r')
         \<and> int (length recs) = (if exactBytes > 0 then count else count - 1)
         \<and> (\<forall>k < length recs. int (length (Payload (Frame (recs ! k))))
                = (if exactBytes > 0 \<and> int k = count - 1 then (sz - 24) mod 78 else 0))
         \<and> (count * (max 1 (go_div duration 1000000000 - 1) * 1000000) * 1000 < 2 ^ 63
              \<longrightarrow> sorted (map Timestamp recs))"
proof -
  define S0 where "S0 = start div 1000000000"
  define D where "D = go_div duration 1000000000"
  define R where "R = max 1 (D - 1)"
  have Db: "- (2 ^ 34) \<le> D" "D \<le> 2 ^ 34" unfolding D_def using seconds_bounds[OF du] by simp_all
  have S0b: "- (2 ^ 61) \<le> S0" "S0 \<le> 2 ^ 61"
  proof -
    have "(- (2 ^ 62)) div 1000000000 \<le> S0" unfolding S0_def using st by (intro zdiv_mono1) auto
    then show "- (2 ^ 61) \<le> S0" by simp
    have "S0 \<le> (2 ^ 62) div 1000000000" unfolding S0_def using st by (intro zdiv_mono1) auto
    then show "S0 \<le> 2 ^ 61" by simp
  qed
  have w1: "wrap64 (S0 + D) = S0 + D" using S0b Db by (intro wrap64_id) simp_all
  have w2: "wrap64 (S0 + D - 1) = S0 + D - 1" using S0b Db by (intro wrap64_id) simp_all
  define endSec where "endSec = S0 + D - 1"
  have eS: "- (2 ^ 62) \<le> endSec" "endSec \<le> 2 ^ 62" using S0b Db by (simp_all add: endSec_def)
  have Re: "R = max 1 (endSec - S0)" by (simp add: R_def endSec_def)
  have RB: "R * 1000000 < 2 ^ 61" using Db by (simp add: R_def max_def)
  have s24: "wrap64 (sz - 24) = sz - 24" using sz by (intro wrap64_id) simp_all
  have cnt: "go_div (sz - 24) 78 = count" unfolding cn using sz by (intro go_div_nonneg) simp_all
  have rmd: "go_mod (sz - 24) 78 = (sz - 24) mod 78" using sz by (intro go_mod_nonneg) simp_all
  have c1: "1 \<le> count"
  proof -
    have "78 div 78 \<le> (sz - 24) div 78" using sz by (intro zdiv_mono1) simp_all
    then show ?thesis by (simp add: cn)
  qed
  have csmall: "count < 2 ^ 61"
  proof -
    have "(sz - 24) div 78 \<le> (2 ^ 63) div 78" using sz by (intro zdiv_mono1) simp_all
    then show ?thesis by (simp add: cn)
  qed
  have wc1: "wrap64 (count - 1) = count - 1" using c1 csmall by (intro wrap64_id) simp_all
  define limit where "limit = (if exactBytes > 0 then count else count - 1)"
  define remainder where "remainder = (if exactBytes > 0 then (sz - 24) mod 78 else 0)"
  have lim: "limit \<le> count" "0 \<le> limit" using c1 by (simp_all add: limit_def)
  have unfold: "createPcapFile start duration maxSize exactBytes randSrc internal external =
      (case randomPackets limit count remainder endSec internal external 0 (S0, 0, randSrc, []) of
         Inl e \<Rightarrow> Inl e
       | Inr (startSec', offsetUsec', r', recs) \<Rightarrow> Inr (recs, r'))"
  proof (cases "exactBytes > 0")
    case True
    then have "sz = exactBytes" using sz by simp
    then show ?thesis
      using True sz(2) c1 s24 cnt rmd
      by (simp add: createPcapFile_def Let_def S0_def[symmetric] D_def[symmetric] w1 w2
            endSec_def limit_def remainder_def)
  next
    case False
    then have "sz = maxSize" using sz by simp
    then show ?thesis
      using False c1 s24 cnt wc1
      by (simp add: createPcapFile_def Let_def S0_def[symmetric] D_def[symmetric] w1 w2
            endSec_def limit_def remainder_def)
  qed
  obtain S' off' r' new where
    res: "randomPackets limit count remainder endSec internal external 0 (S0, 0, randSrc, [])
             = Inr (S', off', r', [] @ new)"
    and len: "length new = nat limit"
    and pl: "\<forall>k < nat limit. int (length (Payload (Frame (new ! k))))
                  = (if 0 + int k = wrap64 (count - 1) \<and> remainder > 0 then remainder else 0)"
    and srt: "count * (R * 1000000) * 1000 < 2 ^ 63 \<longrightarrow> (0::int) \<le> 0 \<longrightarrow> 0 \<le> 0 * (R * 1000000)
                \<longrightarrow> sorted (map Timestamp new)
                    \<and> (\<forall>rc \<in> set new. S0 * 1000000000 + 0 * 1000 \<le> Timestamp rc)"
    using randomPackets_spec[OF pools Re RB S0b eS csmall lim(1), of "nat limit" 0 S0 remainder 0
            randSrc "[]"] lim(2)
    by auto
  have A: "createPcapFile start duration maxSize exactBytes randSrc internal external = Inr (new, r')"
    using unfold res by simp
  have B: "int (length new) = (if exactBytes > 0 then count else count - 1)"
    using len lim by (simp add: limit_def)
  have C: "\<forall>k < length new. int (length (Payload (Frame (new ! k))))
                = (if exactBytes > 0 \<and> int k = count - 1 then (sz - 24) mod 78 else 0)"
  proof (intro allI impI)
    fix k assume "k < length new"
    then have "int (length (Payload (Frame (new ! k))))
                  = (if int k = count - 1 \<and> remainder > 0 then remainder else 0)"
      using pl len wc1 by simp
    then show "int (length (Payload (Frame (new ! k))))
                = (if exactBytes > 0 \<and> int k = count - 1 then (sz - 24) mod 78 else 0)"
      by (auto simp: remainder_def)
  qed
  have D: "count * (max 1 (go_div duration 1000000000 - 1) * 1000000) * 1000 < 2 ^ 63
              \<longrightarrow> sorted (map Timestamp new)"
    using srt by (simp add: R_def D_def)
  show ?thesis using A B C D by blast
qed

section \<open>Timestamps of a generated file\<close>




lemma fileSize_no_payload:
  assumes "\<forall>k < length recs. length (Payload (Frame (recs ! k))) = 0"
  shows "fileSize recs = 24 + 78 * int (length recs)"
proof -
  have "\<forall>rc \<in> set recs. 16 + frameLen (Frame rc) = 78"
    using assms by (auto simp: in_set_conv_nth frameLen_def)
  then have "map (\<lambda>rc. 16 + frameLen (Frame rc)) recs = map (\<lambda>rc. 78) recs"
    by (intro map_cong) auto
  then have "sum_list (map (\<lambda>rc. 16 + frameLen (Frame rc)) recs) = 78 * int (length recs)"
    by (simp add: map_replicate_const sum_list_replicate)
  then show ?thesis by (simp add: fileSize_def)
qed

text \<open>
  Claim C7, as amended. Without an exact target size (\<open>ExactBytes\<close> not positive) \<open>Generate\<close>
  never generates: it returns a configuration error whatever the max-size, and that error
  is \<open>exact-size must be > 0\<close> when the host counts, the file count, the output names and the
  duration range are valid. The max-size branch is still there in \<open>createPcapFile\<close>: called
  with \<open>exactBytes\<close> not positive, a max-size of at least 102 bytes (a Go integer), non-empty
  host pools and a start instant and duration in range, it returns without error, has
  written \<open>(maxSize - 24) / 78 - 1\<close> packets, none with payload, and the file is no longer
  than \<open>maxSize\<close>.
\<close>

theorem Generate_without_exact_size:
  "(ExactBytes cfg \<le> 0 \<longrightarrow> isl (Generate source cfg))
   \<and> (ExactBytes cfg \<le> 0 \<and> InternalHosts cfg > 0 \<and> ExternalHosts cfg > 0 \<and> FileCount cfg > 0
        \<and> (OutFile cfg \<noteq> [] \<longrightarrow> FileCount cfg = 1)
        \<and> 0 < MinDuration cfg \<and> MinDuration cfg \<le> MaxDuration cfg
      \<longrightarrow> Generate source cfg = Inl (Error ''exact-size must be > 0''))
   \<and> (exactBytes \<le> 0 \<and> 102 \<le> maxSize \<and> maxSize < 2 ^ 63
        \<and> internal \<noteq> [] \<and> external \<noteq> []
        \<and> - (2 ^ 62) \<le> start \<and> start < 2 ^ 62 \<and> - (2 ^ 63) \<le> duration \<and> duration < 2 ^ 63
      \<longrightarrow> (\<exists>recs r'.
             createPcapFile start duration maxSize exactBytes randSrc internal external = Inr (recs, r')
             \<and> int (length recs) = (maxSize - 24) div 78 - 1
             \<and> (\<forall>rc \<in> set recs. Payload (Frame rc) = [])
             \<and> fileSize recs = 24 + 78 * ((maxSize - 24) div 78 - 1)
             \<and> fileSize recs \<le> maxSize))"
proof (intro conjI impI)
  assume "ExactBytes cfg \<le> 0"
  then have "Generate_checks cfg \<noteq> None" by (auto simp: Generate_checks_def)
  then obtain e where "Generate_checks cfg = Some e" by auto
  then show "isl (Generate source cfg)" by (simp add: Generate_error_of_checks)
next
  assume "ExactBytes cfg \<le> 0 \<and> InternalHosts cfg > 0 \<and> ExternalHosts cfg > 0 \<and> FileCount cfg > 0
        \<and> (OutFile cfg \<noteq> [] \<longrightarrow> FileCount cfg = 1)
        \<and> 0 < MinDuration cfg \<and> MinDuration cfg \<le> MaxDuration cfg"
  then have "Generate_checks cfg = Some (Error ''exact-size must be > 0'')"
    by (auto simp: Generate_checks_def)
  then show "Generate source cfg = Inl (Error ''exact-size must be > 0'')"
    by (rule Generate_error_of_checks)
next
  assume a: "exactBytes \<le> 0 \<and> 102 \<le> maxSize \<and> maxSize < 2 ^ 63
        \<and> internal \<noteq> [] \<and> external \<noteq> []
        \<and> - (2 ^ 62) \<le> start \<and> start < 2 ^ 62 \<and> - (2 ^ 63) \<le> duration \<and> duration < 2 ^ 63"
  define c where "c = (maxSize - 24) div 78"
  have sz: "maxSize = (if exactBytes > 0 then exactBytes else maxSize)" using a by simp
  obtain recs r' where
    res: "createPcapFile start duration maxSize exactBytes randSrc internal external = Inr (recs, r')"
    and len: "int (length recs) = (if exactBytes > 0 then c else c - 1)"
    and pl: "\<forall>k < length recs. int (length (Payload (Frame (recs ! k))))
                = (if exactBytes > 0 \<and> int k = c - 1 then (maxSize - 24) mod 78 else 0)"
    using createPcapFile_spec[of internal external start duration maxSize exactBytes maxSize c randSrc]
      a sz c_def
    by blast
  have len': "int (length recs) = c - 1" using len a by simp
  have pl': "\<forall>k < length recs. length (Payload (Frame (recs ! k))) = 0" using pl a by simp
  then have empty: "\<forall>rc \<in> set recs. Payload (Frame rc) = []"
    by (auto simp: in_set_conv_nth)
  have fs: "fileSize recs = 24 + 78 * (c - 1)"
    using fileSize_no_payload[OF pl'] len' by simp
  have "c * 78 \<le> maxSize - 24"
    unfolding c_def
    using pos_mod_sign[of 78 "maxSize - 24"] div_mult_mod_eq[of "maxSize - 24" 78] by linarith
  then have "fileSize recs \<le> maxSize" using fs by (simp add: algebra_simps)
  then have "createPcapFile start duration maxSize exactBytes randSrc internal external = Inr (recs, r')
             \<and> int (length recs) = c - 1
             \<and> (\<forall>rc \<in> set recs. Payload (Frame rc) = [])
             \<and> fileSize recs = 24 + 78 * (c - 1)
             \<and> fileSize recs \<le> maxSize"
    using res len' empty fs by blast
  then show "\<exists>recs r'.
             createPcapFile start duration maxSize exactBytes randSrc internal external = Inr (recs, r')
             \<and> int (length recs) = (maxSize - 24) div 78 - 1
             \<and> (\<forall>rc \<in> set recs. Payload (Frame rc) = [])
             \<and> fileSize recs = 24 + 78 * ((maxSize - 24) div 78 - 1)
             \<and> fileSize recs \<le> maxSize"
    unfolding c_def by blast
qed

theorem Generate_without_exact_size_witness:
  "ExactBytes default_config \<le> 0 \<and> InternalHosts default_config > 0
   \<and> ExternalHosts default_config > 0 \<and> FileCount default_config > 0
   \<and> OutFile default_config = []
   \<and> 0 < MinDuration default_config \<and> MinDuration default_config \<le> MaxDuration default_config
   \<and> Generate zero_source default_config = Inl (Error ''exact-size must be > 0'')
   \<and> (0::int) \<le> 0 \<and> (102::int) \<le> 300 \<and> (300::int) < 2 ^ 63 \<and> ten_hosts \<noteq> []
   \<and> - (2 ^ 62) \<le> (0::int) \<and> (0::int) < 2 ^ 62
   \<and> - (2 ^ 63) \<le> (60000000000::int) \<and> (60000000000::int) < 2 ^ 63
   \<and> (\<exists>recs r'.
         createPcapFile 0 60000000000 300 0 (\<lambda>k. 0) ten_hosts ten_hosts = Inr (recs, r')
         \<and> int (length recs) = 2 \<and> (\<forall>rc \<in> set recs. Payload (Frame rc) = [])
         \<and> fileSize recs = 180 \<and> fileSize recs \<le> 300)"
proof -
  have h: "ExactBytes default_config \<le> 0 \<and> InternalHosts default_config > 0
      \<and> ExternalHosts default_config > 0 \<and> FileCount default_config > 0
      \<and> (OutFile default_config \<noteq> [] \<longrightarrow> FileCount default_config = 1)
      \<and> 0 < MinDuration default_config \<and> MinDuration default_config \<le> MaxDuration default_config"
    by (simp add: default_config_def)
  have g: "(0::int) \<le> 0 \<and> (102::int) \<le> 300 \<and> (300::int) < 2 ^ 63
      \<and> ten_hosts \<noteq> [] \<and> ten_hosts \<noteq> []
      \<and> - (2 ^ 62) \<le> (0::int) \<and> (0::int) < 2 ^ 62
      \<and> - (2 ^ 63) \<le> (60000000000::int) \<and> (60000000000::int) < 2 ^ 63"
    by (simp add: ten_hosts_def)
  note t = Generate_without_exact_size[of default_config zero_source 0 300 ten_hosts ten_hosts 0
      60000000000 "\<lambda>k. 0"]
  obtain recs r' where
    r: "createPcapFile 0 60000000000 300 0 (\<lambda>k. 0) ten_hosts ten_hosts = Inr (recs, r')"
       "int (length recs) = (300 - 24) div 78 - 1" "\<forall>rc \<in> set recs. Payload (Frame rc) = []"
       "fileSize recs = 24 + 78 * ((300 - 24) div 78 - 1)" "fileSize recs \<le> 300"
    using t g by blast
  have "int (length recs) = 2" "fileSize recs = 180" using r(2,4) by simp_all
  then have "\<exists>recs r'.
         createPcapFile 0 60000000000 300 0 (\<lambda>k. 0) ten_hosts ten_hosts = Inr (recs, r')
         \<and> int (length recs) = 2 \<and> (\<forall>rc \<in> set recs. Payload (Frame rc) = [])
         \<and> fileSize recs = 180 \<and> fileSize recs \<le> 300"
    using r(1,3,5) by blast
  moreover have "Generate zero_source default_config = Inl (Error ''exact-size must be > 0'')"
    using t h by blast
  moreover have "OutFile default_config = []" by (simp add: default_config_def)
  ultimately show ?thesis using h g by blast
qed




section \<open>The size-string parser\<close>

lemma parseSize_unfold:
  assumes "TrimSpace (ToLower value) \<noteq> []" "numericPart value \<noteq> []"
  shows "parseSize ParseFloat other value =
           (case ParseFloat (numericPart value) of
              Inl err \<Rightarrow> Inl err
            | Inr num \<Rightarrow>
                if f64_le_zero num then Inl (Error ''size must be > 0'')
                else Inr (int64_of other (math_Round (f64_times num
                            (fst (sizeUnit (TrimSpace (ToLower value))))))))"
  using assms by (simp add: parseSize_def numericPart_def Let_def case_prod_beta)

lemma parseSize_strings:
  "TrimSpace (ToLower ''1g'') \<noteq> []" "numericPart ''1g'' = ''1''"
  "fst (sizeUnit (TrimSpace (ToLower ''1g''))) = 1073741824"
  "TrimSpace (ToLower ''0.5gb'') \<noteq> []" "numericPart ''0.5gb'' = ''0.5''"
  "fst (sizeUnit (TrimSpace (ToLower ''0.5gb''))) = 1073741824"
  "TrimSpace (ToLower ''200m'') \<noteq> []" "numericPart ''200m'' = ''200''"
  "fst (sizeUnit (TrimSpace (ToLower ''200m''))) = 1048576"
  "TrimSpace (ToLower ''200M'') \<noteq> []" "numericPart ''200M'' = ''200''"
  "fst (sizeUnit (TrimSpace (ToLower ''200M''))) = 1048576"
  "TrimSpace (ToLower ''nan'') \<noteq> []" "numericPart ''nan'' = ''nan''"
  "fst (sizeUnit (TrimSpace (ToLower ''nan''))) = 1"
  "TrimSpace (ToLower ''inf'') \<noteq> []" "numericPart ''inf'' = ''inf''"
  "fst (sizeUnit (TrimSpace (ToLower ''inf''))) = 1"
  by code_simp+

text \<open>
  The part of claim C5 the code keeps. Given what \<open>strconv.ParseFloat\<close> returns for 1, 0.5
  and 200, the three sizes of the claim come out, in either letter case; and whenever
  \<open>parseSize\<close> returns a size, \<open>ParseFloat\<close> has accepted the numeric part with a value that
  is not \<open><= 0\<close>: a string it rejects and a value that is zero or negative are errors.
\<close>

lemma parseSize_examples:
  assumes "ParseFloat ''1'' = Inr (Finite 1)" "ParseFloat ''0.5'' = Inr (Finite (1 / 2))"
    and "ParseFloat ''200'' = Inr (Finite 200)"
  shows "parseSize ParseFloat other ''1g'' = Inr 1073741824"
    and "parseSize ParseFloat other ''0.5gb'' = Inr 536870912"
    and "parseSize ParseFloat other ''200m'' = Inr 209715200"
    and "parseSize ParseFloat other ''200M'' = Inr 209715200"
  by (simp_all add: parseSize_unfold parseSize_strings assms f64_le_zero_def f64_times_def
        math_Round_def int64_of_def trunc_def)

lemma parseSize_rejects:
  assumes "parseSize ParseFloat other value = Inr n"
  shows "\<exists>num. ParseFloat (numericPart value) = Inr num \<and> \<not> f64_le_zero num"
  using assms
  by (auto simp: parseSize_def numericPart_def Let_def case_prod_beta
        split: if_splits sum.splits)

text \<open>
  Claim C5, evaluated on the code. \<open>strconv.ParseFloat\<close> reads the strings \<open>nan\<close> and \<open>inf\<close> as
  the special values NaN and +Inf and returns no error. Neither value is \<open><= 0\<close>, so
  \<open>parseSize\<close> returns no error for these bare non-numeric strings: its result is whatever
  the implementation converts the special value to.
\<close>

theorem parseSize_accepts_nan_and_inf:
  "(ParseFloat ''nan'' = Inr NaN \<longrightarrow> parseSize ParseFloat other ''nan'' = Inr (other NaN))
   \<and> (ParseFloat ''inf'' = Inr PosInf \<longrightarrow> parseSize ParseFloat other ''inf'' = Inr (other PosInf))"
  by (simp add: parseSize_unfold parseSize_strings f64_le_zero_def f64_times_def math_Round_def
        int64_of_def)

theorem parseSize_accepts_nan_and_inf_witness:
  "tableParseFloat ''nan'' = Inr NaN
   \<and> parseSize tableParseFloat amd64_other ''nan'' = Inr (- 9223372036854775808)
   \<and> tableParseFloat ''inf'' = Inr PosInf
   \<and> parseSize tableParseFloat amd64_other ''inf'' = Inr (- 9223372036854775808)"
proof -
  have h: "tableParseFloat ''nan'' = Inr NaN" "tableParseFloat ''inf'' = Inr PosInf"
    by (simp_all add: tableParseFloat_def)
  have "amd64_other NaN = - 9223372036854775808" "amd64_other PosInf = - 9223372036854775808"
    by (simp_all add: amd64_other_def)
  then show ?thesis
    using h parseSize_accepts_nan_and_inf[of tableParseFloat amd64_other] by simp
qed

end
